theory Spec2Isabelle
  imports Main
begin

section \<open>Data model of \<^verbatim>\<open>cli.h\<close>\<close>

text \<open>
  \<^verbatim>\<open>Option::Type\<close>. The enumerator \<^verbatim>\<open>Int\<close> is written \<open>Int'\<close>, since \<open>Int\<close> is
  HOL's ASCII notation for set intersection.
\<close>

datatype Type = Flag | FlagCount | Int' | Float | String | Path | PathExisting

text \<open>
  \<^verbatim>\<open>struct Option\<close>. The \<^verbatim>\<open>void* valuePointer\<close> is an address of a variable of the
  caller; the variable itself lives in the caller's memory (\<open>Env\<close> below).
  A C string is a \<open>string\<close> that holds no NUL character.
\<close>

type_synonym addr = nat

record Option =
  type :: Type
  shortName :: char
  longName :: string
  description :: string
  isRequired :: bool
  isSet :: bool
  valuePointer :: addr

definition requiresParameter :: "Option \<Rightarrow> bool" where
  "requiresParameter opt = (type opt \<noteq> Flag \<and> type opt \<noteq> FlagCount)"

text \<open>
  The convenience constructors \<^verbatim>\<open>OptionFlag\<close>, ..., \<^verbatim>\<open>OptionPathExisting\<close>: the first
  two take no \<^verbatim>\<open>required\<close> argument, and all start with \<^verbatim>\<open>isSet = false\<close>.
\<close>

definition OptionFlag :: "char \<Rightarrow> string \<Rightarrow> string \<Rightarrow> addr \<Rightarrow> Option" where
  "OptionFlag sn ln d vp =
     \<lparr>type = Flag, shortName = sn, longName = ln, description = d,
      isRequired = False, isSet = False, valuePointer = vp\<rparr>"

definition OptionFlagCount :: "char \<Rightarrow> string \<Rightarrow> string \<Rightarrow> addr \<Rightarrow> Option" where
  "OptionFlagCount sn ln d vp =
     \<lparr>type = FlagCount, shortName = sn, longName = ln, description = d,
      isRequired = False, isSet = False, valuePointer = vp\<rparr>"

definition OptionInt :: "char \<Rightarrow> string \<Rightarrow> string \<Rightarrow> bool \<Rightarrow> addr \<Rightarrow> Option" where
  "OptionInt sn ln d required vp =
     \<lparr>type = Int', shortName = sn, longName = ln, description = d,
      isRequired = required, isSet = False, valuePointer = vp\<rparr>"

definition OptionFloat :: "char \<Rightarrow> string \<Rightarrow> string \<Rightarrow> bool \<Rightarrow> addr \<Rightarrow> Option" where
  "OptionFloat sn ln d required vp =
     \<lparr>type = Float, shortName = sn, longName = ln, description = d,
      isRequired = required, isSet = False, valuePointer = vp\<rparr>"

definition OptionString :: "char \<Rightarrow> string \<Rightarrow> string \<Rightarrow> bool \<Rightarrow> addr \<Rightarrow> Option" where
  "OptionString sn ln d required vp =
     \<lparr>type = String, shortName = sn, longName = ln, description = d,
      isRequired = required, isSet = False, valuePointer = vp\<rparr>"

definition OptionPath :: "char \<Rightarrow> string \<Rightarrow> string \<Rightarrow> bool \<Rightarrow> addr \<Rightarrow> Option" where
  "OptionPath sn ln d required vp =
     \<lparr>type = Path, shortName = sn, longName = ln, description = d,
      isRequired = required, isSet = False, valuePointer = vp\<rparr>"

definition OptionPathExisting :: "char \<Rightarrow> string \<Rightarrow> string \<Rightarrow> bool \<Rightarrow> addr \<Rightarrow> Option" where
  "OptionPathExisting sn ln d required vp =
     \<lparr>type = PathExisting, shortName = sn, longName = ln, description = d,
      isRequired = required, isSet = False, valuePointer = vp\<rparr>"

text \<open>The data members of \<^verbatim>\<open>class Parser\<close>.\<close>

record Parser =
  options :: "Option list"
  remaining :: "string list"
  executableName :: "string option"

text \<open>
  What the parser writes outside itself: the caller's variables, one typed heap per
  C type that a constructor accepts (\<^verbatim>\<open>bool*\<close>, \<^verbatim>\<open>int*\<close>, \<^verbatim>\<open>float*\<close>,
  \<^verbatim>\<open>const char**\<close>), and the messages sent through \<^verbatim>\<open>CLI_LOG_ERROR\<close>.

  A C \<^verbatim>\<open>int\<close> is modelled by an unbounded \<open>int\<close>: signed overflow is undefined in the
  source, so the model follows the code wherever the code's behaviour is defined.
  A \<^verbatim>\<open>float\<close> is kept symbolically as the text that \<^verbatim>\<open>atof\<close> converted. A
  \<^verbatim>\<open>const char*\<close> is \<open>None\<close> for \<^verbatim>\<open>NULL\<close> and \<open>Some\<close> of the text it points to.
\<close>

datatype float_val = Atof string

datatype error =
    ErrRequired char string
  | ErrNotReadable char string
  | ErrDuplicate char string
  | ErrMissingParameter char string
  | ErrInvalidInt string char string
  | ErrInvalidFloat string char string
  | ErrMidCluster char
  | ErrUnknownShort char
  | ErrUnknownOption string

record Env =
  bools :: "addr \<Rightarrow> bool"
  ints :: "addr \<Rightarrow> int"
  floats :: "addr \<Rightarrow> float_val"
  strs :: "addr \<Rightarrow> string option"
  errlog :: "error list"

definition CLI_LOG_ERROR :: "error \<Rightarrow> Env \<Rightarrow> Env" where
  "CLI_LOG_ERROR e env = env\<lparr>errlog := errlog env @ [e]\<rparr>"

section \<open>\<^verbatim>\<open>Parser::isNumeric\<close>\<close>

definition isdigit :: "char \<Rightarrow> bool" where
  "isdigit c = (c \<in> set ''0123456789'')"

text \<open>
  The loop of \<^verbatim>\<open>isNumeric\<close> at index \<open>i\<close>, on the characters from \<open>i\<close> on. The
  \<^verbatim>\<open>switch\<close> is an \<open>if\<close> chain in the order of the \<^verbatim>\<open>case\<close> labels; \<^verbatim>\<open>continue\<close> is
  the recursive call. In the branch for \<^verbatim>\<open>'e'\<close>/\<^verbatim>\<open>'E'\<close> the source assigns
  \<^verbatim>\<open>beginExponent = true; floatingPoint = false;\<close> and returns \<^verbatim>\<open>false\<close> right after.
\<close>

fun isNumeric_loop :: "nat \<Rightarrow> string \<Rightarrow> bool \<Rightarrow> bool \<Rightarrow> bool \<Rightarrow> bool" where
  "isNumeric_loop i [] floatingPoint beginExponent foundDecimal = True"
| "isNumeric_loop i (c # cs) floatingPoint beginExponent foundDecimal =
     (if isdigit c then
        isNumeric_loop (Suc i) cs floatingPoint beginExponent foundDecimal
      else if c = CHR ''-'' \<or> c = CHR ''+'' then
        (if i = 0 \<or> (floatingPoint \<and> beginExponent)
         then isNumeric_loop (Suc i) cs floatingPoint beginExponent foundDecimal
         else False)
      else if c = CHR ''.'' then
        (if floatingPoint \<and> \<not> foundDecimal
         then isNumeric_loop (Suc i) cs floatingPoint beginExponent True
         else False)
      else if c = CHR ''e'' \<or> c = CHR ''E'' then
        (if floatingPoint
         then (let beginExponent = True; floatingPoint = False in False)
         else False)
      else False)"

definition isNumeric :: "string \<Rightarrow> bool \<Rightarrow> bool" where
  "isNumeric str floatingPoint = isNumeric_loop 0 str floatingPoint False False"

section \<open>The C library's \<^verbatim>\<open>atoi\<close>\<close>

text \<open>
  \<^verbatim>\<open>atoi\<close> as the C standard describes it: leading white space is skipped, one
  optional sign is read, then the longest run of decimal digits; no digits give 0.
  The result is the mathematical value (a value outside \<^verbatim>\<open>int\<close> is undefined in C).
\<close>

definition isspace :: "char \<Rightarrow> bool" where
  "isspace c = (c \<in> set [CHR '' '', CHR 0x09, CHR 0x0A, CHR 0x0B, CHR 0x0C, CHR 0x0D])"

fun digits_value :: "int \<Rightarrow> string \<Rightarrow> int" where
  "digits_value acc [] = acc"
| "digits_value acc (c # cs) =
     (if isdigit c then digits_value (acc * 10 + (int (of_char c) - 48)) cs else acc)"

definition atoi :: "string \<Rightarrow> int" where
  "atoi str =
     (case dropWhile isspace str of
        [] \<Rightarrow> 0
      | c # cs \<Rightarrow>
          if c = CHR ''-'' then - digits_value 0 cs
          else if c = CHR ''+'' then digits_value 0 cs
          else digits_value 0 (c # cs))"

section \<open>\<^verbatim>\<open>Parser::applyOption\<close>\<close>

text \<open>
  \<^verbatim>\<open>applyOption(opt, argc, argv)\<close>: \<open>argv\<close> is the list of the tokens from the current
  one on, \<^verbatim>\<open>argc\<close> its length. The option is passed by reference in the source; the
  model returns it updated. \<^verbatim>\<open>argv[1]\<close> is read before the \<^verbatim>\<open>switch\<close> and used
  only by the kinds that require a parameter, for which the check before it has
  established \<^verbatim>\<open>argc >= 2\<close>.
\<close>

definition applyOption :: "Option \<Rightarrow> string list \<Rightarrow> Env \<Rightarrow> int \<times> Option \<times> Env" where
  "applyOption opt0 argv env =
     (if type opt0 \<noteq> FlagCount \<and> isSet opt0 then
        (- 1, opt0, CLI_LOG_ERROR (ErrDuplicate (shortName opt0) (longName opt0)) env)
      else
        let opt = opt0\<lparr>isSet := True\<rparr> in
        if requiresParameter opt \<and> length argv < 2 then
          (- 1, opt, CLI_LOG_ERROR (ErrMissingParameter (shortName opt) (longName opt)) env)
        else
          let argParam = argv ! 1 in
          case type opt of
            Flag \<Rightarrow> (0, opt, env\<lparr>bools := (bools env)(valuePointer opt := True)\<rparr>)
          | FlagCount \<Rightarrow>
              (0, opt, env\<lparr>ints := (ints env)(valuePointer opt := ints env (valuePointer opt) + 1)\<rparr>)
          | Int' \<Rightarrow>
              if \<not> isNumeric argParam False then
                (- 1, opt,
                 CLI_LOG_ERROR (ErrInvalidInt argParam (shortName opt) (longName opt)) env)
              else (1, opt, env\<lparr>ints := (ints env)(valuePointer opt := atoi argParam)\<rparr>)
          | Float \<Rightarrow>
              if \<not> isNumeric argParam True then
                (- 1, opt,
                 CLI_LOG_ERROR (ErrInvalidFloat argParam (shortName opt) (longName opt)) env)
              else (1, opt, env\<lparr>floats := (floats env)(valuePointer opt := Atof argParam)\<rparr>)
          | String \<Rightarrow> (1, opt, env\<lparr>strs := (strs env)(valuePointer opt := Some argParam)\<rparr>)
          | Path \<Rightarrow> (1, opt, env\<lparr>strs := (strs env)(valuePointer opt := Some argParam)\<rparr>)
          | PathExisting \<Rightarrow>
              (1, opt, env\<lparr>strs := (strs env)(valuePointer opt := Some argParam)\<rparr>))"

section \<open>\<^verbatim>\<open>Parser::handleOption\<close>\<close>

text \<open>
  The inner loop of the short-option branch, \<^verbatim>\<open>for(Option& opt : options)\<close>, for the
  character \<open>c = arg[i]\<close>. \<open>mid\<close> is \<^verbatim>\<open>i < strlen(arg) - 1\<close>. The loop does not stop at
  the first match. The result \<open>Some r\<close> is a \<^verbatim>\<open>return r\<close> out of \<^verbatim>\<open>handleOption\<close>,
  \<open>None\<close> is the end of the loop; the second component is \<^verbatim>\<open>handled\<close>.
\<close>

fun shortOptions ::
  "char \<Rightarrow> bool \<Rightarrow> string list \<Rightarrow> Option list \<Rightarrow> bool \<Rightarrow> Env
     \<Rightarrow> int option \<times> bool \<times> Option list \<times> Env" where
  "shortOptions c mid argv [] handled env = (None, handled, [], env)"
| "shortOptions c mid argv (opt # opts) handled env =
     (if shortName opt = c then
        (if requiresParameter opt \<and> mid then
           (Some (- 1), handled, opt # opts, CLI_LOG_ERROR (ErrMidCluster (shortName opt)) env)
         else
           case applyOption opt argv env of
             (result, opt', env') \<Rightarrow>
               if result \<noteq> 0 then (Some result, True, opt' # opts, env')
               else
                 (case shortOptions c mid argv opts True env' of
                    (r, h, opts', env'') \<Rightarrow> (r, h, opt' # opts', env'')))
      else
        (case shortOptions c mid argv opts handled env of
           (r, h, opts', env') \<Rightarrow> (r, h, opt # opts', env')))"

text \<open>
  The outer loop of the short-option branch, \<^verbatim>\<open>for(int i = 1; i < strlen(arg); ++i)\<close>,
  on the characters of \<^verbatim>\<open>arg\<close> from index \<open>i\<close> on. Falling out of the loop reaches the
  final \<^verbatim>\<open>return 0\<close> of \<^verbatim>\<open>handleOption\<close>.
\<close>

fun shortCluster ::
  "string \<Rightarrow> string list \<Rightarrow> Option list \<Rightarrow> Env \<Rightarrow> int \<times> Option list \<times> Env" where
  "shortCluster [] argv opts env = (0, opts, env)"
| "shortCluster (c # cs) argv opts env =
     (case shortOptions c (cs \<noteq> []) argv opts False env of
        (Some r, handled, opts', env') \<Rightarrow> (r, opts', env')
      | (None, handled, opts', env') \<Rightarrow>
          if \<not> handled then (- 1, opts', CLI_LOG_ERROR (ErrUnknownShort c) env')
          else shortCluster cs argv opts' env')"

text \<open>
  The loop of the long-option branch: the first option whose \<^verbatim>\<open>longName\<close> equals
  \<open>name = arg + 2\<close> is applied and its result returned (\<open>Some\<close>); \<open>None\<close> is the end
  of the loop.
\<close>

fun longOptions ::
  "string \<Rightarrow> string list \<Rightarrow> Option list \<Rightarrow> Env \<Rightarrow> int option \<times> Option list \<times> Env" where
  "longOptions name argv [] env = (None, [], env)"
| "longOptions name argv (opt # opts) env =
     (if name = longName opt then
        (case applyOption opt argv env of (r, opt', env') \<Rightarrow> (Some r, opt' # opts, env'))
      else
        (case longOptions name argv opts env of
           (r, opts', env') \<Rightarrow> (r, opt # opts', env')))"

text \<open>
  \<^verbatim>\<open>handleOption(argc, argv)\<close> with \<open>argv = arg # rest\<close>; \<^verbatim>\<open>parse\<close> calls it with
  \<^verbatim>\<open>argc >= 1\<close> only.
\<close>

fun handleOption :: "string list \<Rightarrow> Parser \<Rightarrow> Env \<Rightarrow> int \<times> Parser \<times> Env" where
  "handleOption (arg # rest) p env =
     (if length arg > 1 \<and> arg ! 0 = CHR ''-'' then
        (if arg ! 1 \<noteq> CHR ''-'' then
           (case shortCluster (drop 1 arg) (arg # rest) (options p) env of
              (r, opts', env') \<Rightarrow> (r, p\<lparr>options := opts'\<rparr>, env'))
         else
           (case longOptions (drop 2 arg) (arg # rest) (options p) env of
              (Some r, opts', env') \<Rightarrow> (r, p\<lparr>options := opts'\<rparr>, env')
            | (None, opts', env') \<Rightarrow>
                (- 1, p\<lparr>options := opts'\<rparr>, CLI_LOG_ERROR (ErrUnknownOption arg) env')))
      else (0, p\<lparr>remaining := remaining p @ [arg]\<rparr>, env))"

section \<open>\<^verbatim>\<open>Parser::parse\<close>\<close>

text \<open>
  The token loop \<^verbatim>\<open>for(int i = 1; i < argc; ++i)\<close> on the tokens from index \<open>i\<close> on:
  a negative result returns \<^verbatim>\<open>false\<close>, otherwise \<^verbatim>\<open>i += result\<close> skips the consumed
  parameters. \<open>True\<close> is the end of the loop.
\<close>

function parseLoop :: "string list \<Rightarrow> Parser \<Rightarrow> Env \<Rightarrow> bool \<times> Parser \<times> Env" where
  "parseLoop [] p env = (True, p, env)"
| "parseLoop (a # as) p env =
     (case handleOption (a # as) p env of
        (result, p', env') \<Rightarrow>
          if result < 0 then (False, p', env')
          else parseLoop (drop (nat result) as) p' env')"
  by pat_completeness auto
termination
  by (relation "measure (\<lambda>(args, p, env). length args)") auto

text \<open>The loop over the options that follows the token loop.\<close>

fun checkRequired :: "Option list \<Rightarrow> Env \<Rightarrow> bool \<times> Env" where
  "checkRequired [] env = (True, env)"
| "checkRequired (opt # opts) env =
     (if isRequired opt \<and> \<not> isSet opt then
        (False, CLI_LOG_ERROR (ErrRequired (shortName opt) (longName opt)) env)
      else checkRequired opts env)"

text \<open>
  \<^verbatim>\<open>parse(argc, argv)\<close>, with \<^verbatim>\<open>argc\<close> the length of \<open>argv\<close>. \<^verbatim>\<open>argv[0]\<close> is the program
  name (\<^verbatim>\<open>argv[argc]\<close> is \<^verbatim>\<open>NULL\<close>, which covers the empty vector).
\<close>

definition parse :: "string list \<Rightarrow> Parser \<Rightarrow> Env \<Rightarrow> bool \<times> Parser \<times> Env" where
  "parse argv p0 env =
     (let p = p0\<lparr>executableName := (case argv of [] \<Rightarrow> None | a # _ \<Rightarrow> Some a)\<rparr> in
      case parseLoop (drop 1 argv) p env of
        (False, p', env') \<Rightarrow> (False, p', env')
      | (True, p', env') \<Rightarrow>
          (case checkRequired (options p') env' of (ok, env'') \<Rightarrow> (ok, p', env'')))"

section \<open>\<^verbatim>\<open>Parser::validatePathOptions\<close>\<close>

text \<open>
  \<^verbatim>\<open>checkExistsReadable(path)\<close>. The file system is the parameter \<open>fopen_rb\<close>: whether
  \<^verbatim>\<open>fopen(path, "rb")\<close> returns a stream.
\<close>

definition checkExistsReadable :: "(string option \<Rightarrow> bool) \<Rightarrow> string option \<Rightarrow> bool" where
  "checkExistsReadable fopen_rb path = (if fopen_rb path then True else False)"

fun validateLoop ::
  "(string option \<Rightarrow> bool) \<Rightarrow> Option list \<Rightarrow> bool \<Rightarrow> Env \<Rightarrow> bool \<times> Env" where
  "validateLoop fopen_rb [] valid env = (valid, env)"
| "validateLoop fopen_rb (opt # opts) valid env =
     (if type opt = PathExisting
         \<and> \<not> checkExistsReadable fopen_rb (strs env (valuePointer opt))
      then validateLoop fopen_rb opts False
             (CLI_LOG_ERROR (ErrNotReadable (shortName opt) (longName opt)) env)
      else validateLoop fopen_rb opts valid env)"

definition validatePathOptions :: "(string option \<Rightarrow> bool) \<Rightarrow> Parser \<Rightarrow> Env \<Rightarrow> bool \<times> Env" where
  "validatePathOptions fopen_rb p env = validateLoop fopen_rb (options p) True env"

section \<open>Notions used by the statements\<close>

text \<open>A \<^verbatim>\<open>PathExisting\<close> option whose bound path \<^verbatim>\<open>fopen\<close> cannot open.\<close>

definition unreadable :: "(string option \<Rightarrow> bool) \<Rightarrow> Env \<Rightarrow> Option \<Rightarrow> bool" where
  "unreadable fopen_rb env opt =
     (type opt = PathExisting \<and> \<not> fopen_rb (strs env (valuePointer opt)))"

text \<open>
  The three classes of tokens, in the words of the specification: a positional token
  does not start with \<^verbatim>\<open>-\<close>, or is exactly \<^verbatim>\<open>-\<close>; a long option starts with \<^verbatim>\<open>--\<close>;
  any other token is a cluster of short options. Lemmas \<open>positional_iff\<close>,
  \<open>is_cluster_iff\<close> and \<open>is_long_iff\<close> relate them to the tests of \<^verbatim>\<open>handleOption\<close>.
\<close>

definition positional :: "string \<Rightarrow> bool" where
  "positional tok = (take 1 tok \<noteq> ''-'' \<or> tok = ''-'')"

definition is_cluster :: "string \<Rightarrow> bool" where
  "is_cluster tok = (\<not> positional tok \<and> take 2 tok \<noteq> ''--'')"

definition is_long :: "string \<Rightarrow> bool" where
  "is_long tok = (\<not> positional tok \<and> take 2 tok = ''--'')"

text \<open>
  Whether an option token, handled without error, takes the token after it as its
  parameter: a cluster whose last character is the short name of an option that
  requires a parameter, or a long option whose first match requires one. This reads
  the declarations only, not \<^verbatim>\<open>isSet\<close>.
\<close>

definition consumes_parameter :: "Option list \<Rightarrow> string \<Rightarrow> bool" where
  "consumes_parameter opts tok =
     (if is_cluster tok then
        list_ex (\<lambda>opt. shortName opt = last tok \<and> requiresParameter opt) opts
      else if is_long tok then
        (case find (\<lambda>opt. longName opt = drop 2 tok) opts of
           None \<Rightarrow> False
         | Some opt \<Rightarrow> requiresParameter opt)
      else False)"

text \<open>
  The tokens of \<open>args\<close> that are not the parameter of the option token before them:
  those a scan without error calls \<^verbatim>\<open>handleOption\<close> on, in order.
\<close>

function dispatched :: "Option list \<Rightarrow> string list \<Rightarrow> string list" where
  "dispatched opts [] = []"
| "dispatched opts (tok # rest) =
     tok # dispatched opts (if consumes_parameter opts tok then drop 1 rest else rest)"
  by pat_completeness auto
termination
  by (relation "measure (\<lambda>(opts, args). length args)") auto

text \<open>
  How often a token names an option: the occurrences of its short name in a
  cluster, or once for a long option with its long name. \<open>invocations\<close> adds this up
  over the dispatched tokens.
\<close>

definition times_named :: "Option \<Rightarrow> string \<Rightarrow> nat" where
  "times_named opt tok =
     (if is_cluster tok then count_list (drop 1 tok) (shortName opt)
      else if is_long tok \<and> drop 2 tok = longName opt then 1
      else 0)"

definition invocations :: "Option list \<Rightarrow> Option \<Rightarrow> string list \<Rightarrow> nat" where
  "invocations opts opt args = sum_list (map (times_named opt) (dispatched opts args))"

text \<open>
  The token \<open>tok\<close> is the value bound to the target of a parameter option: converted
  by \<^verbatim>\<open>atoi\<close> or \<^verbatim>\<open>atof\<close> for the numeric kinds, the text itself for the others.
\<close>

definition bound_to :: "Option \<Rightarrow> Env \<Rightarrow> string \<Rightarrow> bool" where
  "bound_to opt env tok =
     (case type opt of
        Int' \<Rightarrow> ints env (valuePointer opt) = atoi tok
      | Float \<Rightarrow> floats env (valuePointer opt) = Atof tok
      | String \<Rightarrow> strs env (valuePointer opt) = Some tok
      | Path \<Rightarrow> strs env (valuePointer opt) = Some tok
      | PathExisting \<Rightarrow> strs env (valuePointer opt) = Some tok
      | _ \<Rightarrow> False)"

text \<open>
  No option other than \<open>opt\<close> writes the integer that \<open>opt\<close> is bound to: the options
  with another short name are not of kind \<^verbatim>\<open>Int\<close> or \<^verbatim>\<open>FlagCount\<close>, or point
  elsewhere.
\<close>

definition unaliased :: "Option list \<Rightarrow> Option \<Rightarrow> bool" where
  "unaliased opts opt =
     list_all (\<lambda>x. shortName x = shortName opt \<or> (type x \<noteq> Int' \<and> type x \<noteq> FlagCount)
                   \<or> valuePointer x \<noteq> valuePointer opt) opts"

text \<open>
  The parser changes an option only by setting \<^verbatim>\<open>isSet\<close>. \<open>declared opts t\<close>: the
  short names and the long names of \<open>opts\<close> are pairwise different and \<open>t\<close>, as
  declared or set since, is one of them. \<open>was_set opts t\<close>: that option is set.
\<close>

definition evolved :: "Option \<Rightarrow> Option \<Rightarrow> bool" where
  "evolved opt opt' = (opt' = opt \<or> opt' = opt\<lparr>isSet := True\<rparr>)"

definition declared :: "Option list \<Rightarrow> Option \<Rightarrow> bool" where
  "declared opts t =
     (distinct (map shortName opts) \<and> distinct (map longName opts)
      \<and> list_ex (evolved t) opts)"

definition was_set :: "Option list \<Rightarrow> Option \<Rightarrow> bool" where
  "was_set opts t = list_ex (\<lambda>x. shortName x = shortName t \<and> isSet x) opts"

text \<open>
  The messages for a missing parameter and for an invalid numeric literal, the option
  such a message names, and whether that option is set in a list of options.
\<close>

fun parameter_error :: "error \<Rightarrow> bool" where
  "parameter_error (ErrMissingParameter c n) = True"
| "parameter_error (ErrInvalidInt a c n) = True"
| "parameter_error (ErrInvalidFloat a c n) = True"
| "parameter_error e = False"

fun names_option :: "error \<Rightarrow> Option \<Rightarrow> bool" where
  "names_option (ErrMissingParameter c n) opt = (shortName opt = c \<and> longName opt = n)"
| "names_option (ErrInvalidInt a c n) opt = (shortName opt = c \<and> longName opt = n)"
| "names_option (ErrInvalidFloat a c n) opt = (shortName opt = c \<and> longName opt = n)"
| "names_option e opt = False"

definition offender_set :: "error \<Rightarrow> Option list \<Rightarrow> bool" where
  "offender_set e opts = list_ex (\<lambda>opt. isSet opt \<and> names_option e opt) opts"

section \<open>Example declarations\<close>

text \<open>
  The parser of \<^verbatim>\<open>cli_example.cpp\<close>, whose two options share the address 0 in two
  different typed heaps, and a caller memory with all variables zero or \<^verbatim>\<open>NULL\<close>.
\<close>

definition example_parser :: Parser where
  "example_parser =
     \<lparr>options = [OptionString CHR ''i'' ''input-file'' ''input file'' True 0,
                 OptionFlagCount CHR ''v'' ''verbose'' ''verbose logging'' 0],
      remaining = [], executableName = None\<rparr>"

definition example_env :: Env where
  "example_env =
     \<lparr>bools = (\<lambda>_. False), ints = (\<lambda>_. 0), floats = (\<lambda>_. Atof ''0''),
      strs = (\<lambda>_. None), errlog = []\<rparr>"

text \<open>
  The parser of the test cases of \<^verbatim>\<open>cli_test.cpp\<close> on short-option clusters: a
  \<^verbatim>\<open>FlagCount\<close> option \<^verbatim>\<open>v\<close> and a \<^verbatim>\<open>String\<close> option \<^verbatim>\<open>S\<close>.
\<close>

definition test_parser :: Parser where
  "test_parser =
     \<lparr>options = [OptionFlagCount CHR ''v'' ''verbose'' ''Verbosity of the thing'' 0,
                 OptionString CHR ''S'' ''string'' ''some string'' False 0],
      remaining = [], executableName = None\<rparr>"

section \<open>Results about \<^verbatim>\<open>isNumeric\<close>\<close>

lemma isNumeric_loop_marker:
  "isNumeric_loop i (CHR ''e'' # cs) fp be fd = False"
  "isNumeric_loop i (CHR ''E'' # cs) fp be fd = False"
  by (simp_all add: isdigit_def)

lemma isNumeric_loop_tail:
  "isNumeric_loop i (c # cs) fp be fd \<Longrightarrow> \<exists>fd'. isNumeric_loop (Suc i) cs fp be fd'"
  by (simp split: if_splits) blast+

text \<open>Whatever the flags, a string that holds an exponent marker is rejected.\<close>

lemma isNumeric_loop_exponent:
  "CHR ''e'' \<in> set cs \<or> CHR ''E'' \<in> set cs \<Longrightarrow> \<not> isNumeric_loop i cs fp be fd"
proof (induction cs arbitrary: i fd)
  case Nil
  then show ?case by simp
next
  case (Cons c cs)
  show ?case
  proof (cases "c = CHR ''e'' \<or> c = CHR ''E''")
    case True
    then show ?thesis using isNumeric_loop_marker by blast
  next
    case False
    with Cons.prems have "CHR ''e'' \<in> set cs \<or> CHR ''E'' \<in> set cs" by auto
    then have "\<And>fd'. \<not> isNumeric_loop (Suc i) cs fp be fd'" using Cons.IH by blast
    then show ?thesis using isNumeric_loop_tail by blast
  qed
qed

lemma isNumeric_exponent:
  "CHR ''e'' \<in> set str \<or> CHR ''E'' \<in> set str \<Longrightarrow> \<not> isNumeric str floatingPoint"
  unfolding isNumeric_def by (rule isNumeric_loop_exponent)

text \<open>
  C1. A float literal with an exponent marker, such as \<^verbatim>\<open>1e5\<close> or \<^verbatim>\<open>2.5E-3\<close>, is
  rejected by \<^verbatim>\<open>isNumeric(str, true)\<close>: the branch for the marker returns \<^verbatim>\<open>false\<close>
  after setting its two flags.
\<close>

theorem isNumeric_rejects_exponent:
  "isNumeric ''1e5'' True = False \<and> isNumeric ''2.5E-3'' True = False
   \<and> isNumeric ''1e+5'' True = False \<and> isNumeric ''2.5'' True = True"
  by (simp add: isNumeric_def isdigit_def)

text \<open>
  What \<^verbatim>\<open>isNumeric(str, false)\<close> accepts: the empty string, and a digit or a sign
  followed by any number of digits. No digit is required.
\<close>

lemma isNumeric_loop_int:
  "isNumeric_loop (Suc i) cs False be fd = list_all isdigit cs"
  by (induction cs arbitrary: i) simp_all

lemma isNumeric_int:
  "isNumeric str False =
     (case str of
        [] \<Rightarrow> True
      | c # cs \<Rightarrow> (isdigit c \<or> c = CHR ''-'' \<or> c = CHR ''+'') \<and> list_all isdigit cs)"
proof (cases str)
  case Nil
  then show ?thesis by (simp add: isNumeric_def)
next
  case (Cons c cs)
  have "\<not> isdigit CHR ''-''" "\<not> isdigit CHR ''+''" by (simp_all add: isdigit_def)
  with Cons show ?thesis by (auto simp: isNumeric_def isNumeric_loop_int)
qed

text \<open>
  C2. \<^verbatim>\<open>isNumeric(str, false)\<close> returns \<^verbatim>\<open>true\<close> on the empty string and on a bare
  sign, where the claim wants \<^verbatim>\<open>false\<close>; on strings with a digit it accepts a run of
  digits with an optional leading sign and rejects the others.
\<close>

theorem isNumeric_accepts_empty_and_bare_sign:
  "isNumeric [] False = True \<and> isNumeric ''+'' False = True \<and> isNumeric ''-'' False = True
   \<and> isNumeric ''-5'' False = True \<and> isNumeric ''5-'' False = False
   \<and> isNumeric ''1.5'' False = False"
  by (simp add: isNumeric_def isdigit_def)

lemmas example_defs =
  example_parser_def example_env_def OptionFlag_def OptionFlagCount_def OptionInt_def
  OptionFloat_def OptionString_def OptionPath_def OptionPathExisting_def

lemmas run_defs = applyOption_def requiresParameter_def CLI_LOG_ERROR_def Let_def

section \<open>The token \<^verbatim>\<open>--\<close>\<close>

lemma longOptions_no_match:
  "\<forall>opt \<in> set opts. longName opt \<noteq> name \<Longrightarrow> longOptions name argv opts env = (None, opts, env)"
  by (induction opts) auto

lemma handleOption_double_dash:
  assumes "\<forall>opt \<in> set (options p). longName opt \<noteq> []"
  shows "handleOption (''--'' # rest) p env = (- 1, p, CLI_LOG_ERROR (ErrUnknownOption ''--'') env)"
  using longOptions_no_match [OF assms] by simp

text \<open>
  C10. A token that is exactly \<^verbatim>\<open>--\<close> is looked up as a long option with the empty
  name: when no declared option has an empty \<^verbatim>\<open>longName\<close>, \<^verbatim>\<open>handleOption\<close> returns
  -1 with the unknown-option message, the parser (its remaining arguments included) is
  unchanged, and the scan and \<^verbatim>\<open>parse\<close> return \<^verbatim>\<open>false\<close> without reading the tokens
  after it.
\<close>

theorem double_dash_unknown_option:
  assumes "\<forall>opt \<in> set (options p). longName opt \<noteq> []"
  shows "handleOption (''--'' # rest) p env = (- 1, p, CLI_LOG_ERROR (ErrUnknownOption ''--'') env)
       \<and> parseLoop (''--'' # rest) p env = (False, p, CLI_LOG_ERROR (ErrUnknownOption ''--'') env)
       \<and> parse (exe # ''--'' # rest) p env
           = (False, p\<lparr>executableName := Some exe\<rparr>, CLI_LOG_ERROR (ErrUnknownOption ''--'') env)"
proof -
  let ?q = "p\<lparr>executableName := Some exe\<rparr>"
  have h: "handleOption (''--'' # rest) p env = (- 1, p, CLI_LOG_ERROR (ErrUnknownOption ''--'') env)"
    using assms by (rule handleOption_double_dash)
  have "\<forall>opt \<in> set (options ?q). longName opt \<noteq> []" using assms by simp
  then have h': "handleOption (''--'' # rest) ?q env
                  = (- 1, ?q, CLI_LOG_ERROR (ErrUnknownOption ''--'') env)"
    by (rule handleOption_double_dash)
  show ?thesis using h h' by (simp add: parse_def del: handleOption.simps)
qed

theorem double_dash_unknown_option_witness:
  "parse [''cli_example'', ''--'', ''file''] example_parser example_env
     = (False, example_parser\<lparr>executableName := Some ''cli_example''\<rparr>,
        CLI_LOG_ERROR (ErrUnknownOption ''--'') example_env)"
  using double_dash_unknown_option
          [where p = example_parser and exe = "''cli_example''" and rest = "[''file'']"
             and env = example_env]
  by (simp add: example_parser_def OptionString_def OptionFlagCount_def)

section \<open>The check of the required options\<close>

lemma checkRequired_find:
  "checkRequired opts env =
     (case find (\<lambda>opt. isRequired opt \<and> \<not> isSet opt) opts of
        None \<Rightarrow> (True, env)
      | Some opt \<Rightarrow> (False, CLI_LOG_ERROR (ErrRequired (shortName opt) (longName opt)) env))"
  by (induction opts) simp_all

text \<open>
  C6. \<^verbatim>\<open>parse\<close> checks the required options only after the token scan has completed
  without error. When the scan fails, \<^verbatim>\<open>parse\<close> returns \<^verbatim>\<open>false\<close> with the state the
  scan left and no required-option message. When the scan succeeds, \<^verbatim>\<open>parse\<close> returns
  \<^verbatim>\<open>false\<close> and reports the first option, in declaration order, that is required
  and not set; it returns \<^verbatim>\<open>true\<close> when there is none.
\<close>

theorem parse_checks_required_after_scan:
  assumes "parseLoop (drop 1 argv)
             (p\<lparr>executableName := (case argv of [] \<Rightarrow> None | a # _ \<Rightarrow> Some a)\<rparr>) env
           = (ok, p', env')"
  shows "parse argv p env =
           (if \<not> ok then (False, p', env')
            else case find (\<lambda>opt. isRequired opt \<and> \<not> isSet opt) (options p') of
                   None \<Rightarrow> (True, p', env')
                 | Some opt \<Rightarrow>
                     (False, p', CLI_LOG_ERROR (ErrRequired (shortName opt) (longName opt)) env'))"
  using assms by (simp add: parse_def checkRequired_find split: option.splits)

theorem parse_checks_required_after_scan_witness:
  "parse [''cli_example'', ''-v''] example_parser example_env
     = (False,
        example_parser
          \<lparr>options := [OptionString CHR ''i'' ''input-file'' ''input file'' True 0,
                        (OptionFlagCount CHR ''v'' ''verbose'' ''verbose logging'' 0)\<lparr>isSet := True\<rparr>],
           executableName := Some ''cli_example''\<rparr>,
        example_env
          \<lparr>ints := (ints example_env)(0 := 1),
           errlog := [ErrRequired CHR ''i'' ''input-file'']\<rparr>)"
proof -
  have "parseLoop (drop 1 [''cli_example'', ''-v''])
          (example_parser\<lparr>executableName :=
             (case [''cli_example'', ''-v''] of [] \<Rightarrow> None | a # _ \<Rightarrow> Some a)\<rparr>) example_env
        = (True,
           example_parser
             \<lparr>options := [OptionString CHR ''i'' ''input-file'' ''input file'' True 0,
                           (OptionFlagCount CHR ''v'' ''verbose'' ''verbose logging'' 0)\<lparr>isSet := True\<rparr>],
              executableName := Some ''cli_example''\<rparr>,
           example_env\<lparr>ints := (ints example_env)(0 := 1)\<rparr>)"
    by (simp add: example_defs run_defs)
  from parse_checks_required_after_scan [OF this] show ?thesis
    by (simp add: example_defs run_defs)
qed


section \<open>\<^verbatim>\<open>validatePathOptions\<close>\<close>

lemma validateLoop_all:
  "validateLoop fopen_rb opts valid env =
     (valid \<and> list_all (\<lambda>opt. fopen_rb (strs env (valuePointer opt)))
                 (filter (\<lambda>opt. type opt = PathExisting) opts),
      env\<lparr>errlog := errlog env
         @ map (\<lambda>opt. ErrNotReadable (shortName opt) (longName opt))
             (filter (unreadable fopen_rb env) opts)\<rparr>)"
proof (induction opts arbitrary: valid env)
  case Nil
  then show ?case by simp
next
  case (Cons opt opts)
  have u: "unreadable fopen_rb (CLI_LOG_ERROR e env) = unreadable fopen_rb env" for e
    by (rule ext) (simp add: unreadable_def CLI_LOG_ERROR_def)
  show ?case
    by (simp add: Cons.IH u checkExistsReadable_def unreadable_def)
       (simp add: CLI_LOG_ERROR_def)
qed

text \<open>
  C8. \<^verbatim>\<open>validatePathOptions\<close> returns the conjunction, over all options of kind
  \<^verbatim>\<open>PathExisting\<close>, of whether the bound path can be opened for reading (true when
  there is no such option). It visits every option: one message is logged for every
  \<^verbatim>\<open>PathExisting\<close> option whose path cannot be opened, in declaration order.
\<close>

theorem validatePathOptions_conjunction:
  "validatePathOptions fopen_rb p env =
     (list_all (\<lambda>opt. fopen_rb (strs env (valuePointer opt)))
        (filter (\<lambda>opt. type opt = PathExisting) (options p)),
      env\<lparr>errlog := errlog env
         @ map (\<lambda>opt. ErrNotReadable (shortName opt) (longName opt))
             (filter (unreadable fopen_rb env) (options p))\<rparr>)"
  by (simp add: validatePathOptions_def validateLoop_all)

section \<open>Invariants of the loops\<close>

lemma evolved_refl [simp]: "evolved opt opt"
  by (simp add: evolved_def)

lemma evolved_set [simp]: "evolved opt (opt\<lparr>isSet := True\<rparr>)"
  by (simp add: evolved_def)

lemma evolved_fields:
  assumes "evolved opt opt'"
  shows "type opt' = type opt" "shortName opt' = shortName opt" "longName opt' = longName opt"
    "isRequired opt' = isRequired opt" "valuePointer opt' = valuePointer opt"
    "requiresParameter opt' = requiresParameter opt" "isSet opt \<Longrightarrow> isSet opt'"
  using assms by (auto simp: evolved_def requiresParameter_def)

lemma evolved_trans: "evolved a b \<Longrightarrow> evolved b c \<Longrightarrow> evolved a c"
  by (auto simp: evolved_def)

lemma list_all2_evolved_refl [simp]: "list_all2 evolved opts opts"
  by (simp add: list_all2_refl)

lemma list_all2_evolved_trans:
  "list_all2 evolved xs ys \<Longrightarrow> list_all2 evolved ys zs \<Longrightarrow> list_all2 evolved xs zs"
  by (rule list_all2_trans [of evolved evolved evolved]) (auto intro: evolved_trans)

lemma applyOption_duplicate:
  "type opt \<noteq> FlagCount \<Longrightarrow> isSet opt \<Longrightarrow>
   applyOption opt argv env
     = (- 1, opt, CLI_LOG_ERROR (ErrDuplicate (shortName opt) (longName opt)) env)"
  by (simp add: applyOption_def)

lemma applyOption_result:
  assumes "applyOption opt argv env = (r, opt', env')"
  shows "evolved opt opt'"
    and "r = - 1 \<or> r = 0 \<or> r = 1"
    and "0 \<le> r \<Longrightarrow> r = (if requiresParameter opt then 1 else 0)"
    and "0 \<le> r \<Longrightarrow> isSet opt'"
    and "0 \<le> r \<Longrightarrow> errlog env' = errlog env"
    and "r = 1 \<Longrightarrow> 2 \<le> length argv"
  using assms
  by (cases "type opt"; simp add: applyOption_def requiresParameter_def Let_def
        split: if_splits; auto)+

lemma list_ex_evolved:
  "list_all2 evolved opts opts' \<Longrightarrow>
   list_ex (\<lambda>opt. shortName opt = c \<and> requiresParameter opt) opts'
     = list_ex (\<lambda>opt. shortName opt = c \<and> requiresParameter opt) opts"
  by (induction rule: list_all2_induct) (auto simp: evolved_fields)

lemma find_long_evolved:
  "list_all2 evolved opts opts' \<Longrightarrow>
   (case find (\<lambda>opt. longName opt = n) opts' of None \<Rightarrow> False | Some opt \<Rightarrow> requiresParameter opt)
     = (case find (\<lambda>opt. longName opt = n) opts of None \<Rightarrow> False | Some opt \<Rightarrow> requiresParameter opt)"
  by (induction rule: list_all2_induct) (auto simp: evolved_fields)

lemma consumes_parameter_evolved:
  "list_all2 evolved opts opts' \<Longrightarrow> consumes_parameter opts' tok = consumes_parameter opts tok"
  by (simp add: consumes_parameter_def list_ex_evolved find_long_evolved)

lemma dispatched_evolved:
  "list_all2 evolved opts opts' \<Longrightarrow> dispatched opts' args = dispatched opts args"
  by (induction opts args rule: dispatched.induct) (simp_all add: consumes_parameter_evolved)

text \<open>The inner loop of the short-option branch.\<close>

lemma shortOptions_Cons_cases [consumes 1, case_names skip middle stop continue]:
  assumes "shortOptions c mid argv (opt # opts) h env = (r, h', opts', env')"
  obtains
    (skip) opts1 where "shortName opt \<noteq> c"
      "shortOptions c mid argv opts h env = (r, h', opts1, env')" "opts' = opt # opts1"
  | (middle) "shortName opt = c" "requiresParameter opt" "mid" "r = Some (- 1)" "h' = h"
      "opts' = opt # opts" "env' = CLI_LOG_ERROR (ErrMidCluster c) env"
  | (stop) r0 opt0 where "shortName opt = c" "\<not> (requiresParameter opt \<and> mid)"
      "applyOption opt argv env = (r0, opt0, env')" "r0 \<noteq> 0" "r = Some r0" "h'"
      "opts' = opt0 # opts"
  | (continue) opt0 env0 opts1 where "shortName opt = c" "\<not> (requiresParameter opt \<and> mid)"
      "applyOption opt argv env = (0, opt0, env0)"
      "shortOptions c mid argv opts True env0 = (r, h', opts1, env')" "opts' = opt0 # opts1"
proof (cases "shortName opt = c")
  case False
  obtain r1 h1 opts1 env1 where
    s: "shortOptions c mid argv opts h env = (r1, h1, opts1, env1)"
    by (cases "shortOptions c mid argv opts h env") auto
  with False assms have "r1 = r" "h1 = h'" "opts' = opt # opts1" "env1 = env'" by auto
  with s False skip show ?thesis by blast
next
  case True
  show ?thesis
  proof (cases "requiresParameter opt \<and> mid")
    case True
    with \<open>shortName opt = c\<close> assms middle show ?thesis by auto
  next
    case False
    obtain r0 opt0 env0 where a: "applyOption opt argv env = (r0, opt0, env0)"
      by (cases "applyOption opt argv env") auto
    show ?thesis
    proof (cases "r0 = 0")
      case False
      with a \<open>shortName opt = c\<close> \<open>\<not> (requiresParameter opt \<and> mid)\<close> assms
      have "r = Some r0" "h'" "opts' = opt0 # opts" "env0 = env'" by auto
      with a False \<open>shortName opt = c\<close> \<open>\<not> (requiresParameter opt \<and> mid)\<close> stop
      show ?thesis by blast
    next
      case True
      obtain r1 h1 opts1 env1 where
        s: "shortOptions c mid argv opts True env0 = (r1, h1, opts1, env1)"
        by (cases "shortOptions c mid argv opts True env0") auto
      with True a \<open>shortName opt = c\<close> \<open>\<not> (requiresParameter opt \<and> mid)\<close> assms
      have "r1 = r" "h1 = h'" "opts' = opt0 # opts1" "env1 = env'" by auto
      with s True a \<open>shortName opt = c\<close> \<open>\<not> (requiresParameter opt \<and> mid)\<close> continue
      show ?thesis by blast
    qed
  qed
qed

lemma shortOptions_evolved:
  "shortOptions c mid argv opts h env = (r, h', opts', env') \<Longrightarrow> list_all2 evolved opts opts'"
proof (induction opts arbitrary: h env opts')
  case Nil
  then show ?case by simp
next
  case (Cons opt opts)
  from Cons.prems show ?case
  proof (cases rule: shortOptions_Cons_cases)
    case (skip opts1)
    then show ?thesis using Cons.IH by simp
  next
    case middle
    then show ?thesis by simp
  next
    case (stop r0 opt0)
    then show ?thesis using applyOption_result(1) by simp
  next
    case (continue opt0 env0 opts1)
    then show ?thesis using applyOption_result(1) Cons.IH by simp
  qed
qed

lemma shortOptions_result:
  "shortOptions c mid argv opts h env = (r, h', opts', env') \<Longrightarrow>
     (r = None \<and> \<not> list_ex (\<lambda>opt. shortName opt = c \<and> requiresParameter opt) opts)
   \<or> r = Some (- 1)
   \<or> (r = Some 1 \<and> \<not> mid \<and> 2 \<le> length argv
        \<and> list_ex (\<lambda>opt. shortName opt = c \<and> requiresParameter opt) opts)"
proof (induction opts arbitrary: h env opts')
  case Nil
  then show ?case by simp
next
  case (Cons opt opts)
  from Cons.prems show ?case
  proof (cases rule: shortOptions_Cons_cases)
    case (skip opts1)
    then show ?thesis using Cons.IH [of h env opts1] by auto
  next
    case middle
    then show ?thesis by simp
  next
    case (stop r0 opt0)
    then show ?thesis using applyOption_result(2,3,6) [of opt argv env r0 opt0 env']
      by (auto split: if_splits)
  next
    case (continue opt0 env0 opts1)
    then show ?thesis
      using applyOption_result(3) [of opt argv env 0 opt0 env0] Cons.IH [of True env0 opts1]
      by (auto split: if_splits)
  qed
qed

text \<open>The outer loop of the short-option branch.\<close>

lemma shortCluster_Cons_cases [consumes 1, case_names return unknown continue]:
  assumes "shortCluster (c # cs) argv opts env = (r, opts', env')"
  obtains
    (return) h where "shortOptions c (cs \<noteq> []) argv opts False env = (Some r, h, opts', env')"
  | (unknown) env1 where "shortOptions c (cs \<noteq> []) argv opts False env = (None, False, opts', env1)"
      "r = - 1" "env' = CLI_LOG_ERROR (ErrUnknownShort c) env1"
  | (continue) opts1 env1 where
      "shortOptions c (cs \<noteq> []) argv opts False env = (None, True, opts1, env1)"
      "shortCluster cs argv opts1 env1 = (r, opts', env')"
proof -
  obtain r1 h1 opts1 env1 where
    s: "shortOptions c (cs \<noteq> []) argv opts False env = (r1, h1, opts1, env1)"
    by (cases "shortOptions c (cs \<noteq> []) argv opts False env") auto
  show ?thesis
  proof (cases r1)
    case (Some r0)
    with s assms have "r0 = r" "opts1 = opts'" "env1 = env'" by auto
    with s Some have "shortOptions c (cs \<noteq> []) argv opts False env = (Some r, h1, opts', env')"
      by simp
    then show ?thesis using return by blast
  next
    case None
    show ?thesis
    proof (cases h1)
      case False
      with s None assms have "r = - 1" "opts1 = opts'" "env' = CLI_LOG_ERROR (ErrUnknownShort c) env1"
        by auto
      moreover from this s None False
      have "shortOptions c (cs \<noteq> []) argv opts False env = (None, False, opts', env1)" by simp
      ultimately show ?thesis using unknown by blast
    next
      case True
      with s None assms have "shortCluster cs argv opts1 env1 = (r, opts', env')" by auto
      moreover from s None True
      have "shortOptions c (cs \<noteq> []) argv opts False env = (None, True, opts1, env1)" by simp
      ultimately show ?thesis using continue by blast
    qed
  qed
qed

lemma shortCluster_evolved:
  "shortCluster cs argv opts env = (r, opts', env') \<Longrightarrow> list_all2 evolved opts opts'"
proof (induction cs arbitrary: opts env)
  case Nil
  then show ?case by simp
next
  case (Cons c cs)
  from Cons.prems show ?case
  proof (cases rule: shortCluster_Cons_cases)
    case (return h)
    then show ?thesis by (rule shortOptions_evolved)
  next
    case (unknown env1)
    then show ?thesis using shortOptions_evolved by blast
  next
    case (continue opts1 env1)
    then show ?thesis
      using shortOptions_evolved Cons.IH list_all2_evolved_trans by blast
  qed
qed

lemma shortCluster_result:
  "shortCluster cs argv opts env = (r, opts', env') \<Longrightarrow>
     r = - 1
   \<or> (r = 0 \<and> \<not> (cs \<noteq> [] \<and> list_ex (\<lambda>opt. shortName opt = last cs \<and> requiresParameter opt) opts))
   \<or> (r = 1 \<and> 2 \<le> length argv \<and> cs \<noteq> []
        \<and> list_ex (\<lambda>opt. shortName opt = last cs \<and> requiresParameter opt) opts)"
proof (induction cs arbitrary: opts env)
  case Nil
  then show ?case by simp
next
  case (Cons c cs)
  from Cons.prems show ?case
  proof (cases rule: shortCluster_Cons_cases)
    case (return h)
    from shortOptions_result [OF this] show ?thesis by auto
  next
    case (unknown env1)
    then show ?thesis by simp
  next
    case (continue opts1 env1)
    from shortOptions_result [OF continue(1)]
    have n: "\<not> list_ex (\<lambda>opt. shortName opt = c \<and> requiresParameter opt) opts" by simp
    from shortOptions_evolved [OF continue(1)] have e: "list_all2 evolved opts opts1" .
    show ?thesis
    proof (cases "cs = []")
      case True
      with continue(2) n show ?thesis by simp
    next
      case False
      with Cons.IH [OF continue(2)] list_ex_evolved [OF e] show ?thesis by simp
    qed
  qed
qed

text \<open>An option that requires a parameter, anywhere before the end of a cluster.\<close>

lemma shortCluster_middle:
  assumes "list_ex (\<lambda>opt. shortName opt = c \<and> requiresParameter opt) opts" and "post \<noteq> []"
  shows "fst (shortCluster (pre @ c # post) argv opts env) = - 1"
  using assms(1)
proof (induction pre arbitrary: opts env)
  case Nil
  obtain r opts' env' where s: "shortCluster (c # post) argv opts env = (r, opts', env')"
    by (cases "shortCluster (c # post) argv opts env") auto
  from s have "r = - 1"
  proof (cases rule: shortCluster_Cons_cases)
    case (return h)
    from shortOptions_result [OF this] assms(2) show ?thesis by auto
  next
    case (unknown env1)
    then show ?thesis by simp
  next
    case (continue opts1 env1)
    from shortOptions_result [OF continue(1)] Nil show ?thesis by simp
  qed
  with s show ?case by simp
next
  case (Cons x pre)
  obtain r opts' env' where
    s: "shortCluster (x # pre @ c # post) argv opts env = (r, opts', env')"
    by (cases "shortCluster (x # pre @ c # post) argv opts env") auto
  from s have "r = - 1"
  proof (cases rule: shortCluster_Cons_cases)
    case (return h)
    from shortOptions_result [OF this] show ?thesis by auto
  next
    case (unknown env1)
    then show ?thesis by simp
  next
    case (continue opts1 env1)
    from shortOptions_evolved [OF continue(1)] Cons.prems
    have "list_ex (\<lambda>opt. shortName opt = c \<and> requiresParameter opt) opts1"
      by (simp add: list_ex_evolved)
    from Cons.IH [OF this, of env1] continue(2) show ?thesis by simp
  qed
  with s show ?case by simp
qed

text \<open>The loop of the long-option branch.\<close>

lemma longOptions_result:
  "longOptions name argv opts env = (r, opts', env') \<Longrightarrow>
   list_all2 evolved opts opts' \<and>
   (case find (\<lambda>opt. longName opt = name) opts of
      None \<Rightarrow> r = None \<and> opts' = opts \<and> env' = env
    | Some opt \<Rightarrow> \<exists>r0 opt0. applyOption opt argv env = (r0, opt0, env') \<and> r = Some r0)"
proof (induction opts arbitrary: opts')
  case Nil
  then show ?case by simp
next
  case (Cons opt opts)
  show ?case
  proof (cases "name = longName opt")
    case True
    obtain r0 opt0 env0 where a: "applyOption opt argv env = (r0, opt0, env0)"
      by (cases "applyOption opt argv env") auto
    with True Cons.prems applyOption_result(1) [OF a] show ?thesis by auto
  next
    case False
    obtain r1 opts1 env1 where s: "longOptions name argv opts env = (r1, opts1, env1)"
      by (cases "longOptions name argv opts env") auto
    with False Cons.prems have "r1 = r" "opts' = opt # opts1" "env1 = env'" by auto
    with s False Cons.IH [of opts1] show ?thesis by (auto split: option.splits)
  qed
qed

text \<open>\<^verbatim>\<open>handleOption\<close>, by the class of the token.\<close>

lemma positional_iff: "positional tok \<longleftrightarrow> \<not> (length tok > 1 \<and> tok ! 0 = CHR ''-'')"
proof (cases tok)
  case Nil
  then show ?thesis by (simp add: positional_def)
next
  case (Cons a as)
  then show ?thesis by (cases as) (auto simp: positional_def)
qed

lemma is_cluster_iff:
  "is_cluster tok \<longleftrightarrow> length tok > 1 \<and> tok ! 0 = CHR ''-'' \<and> tok ! 1 \<noteq> CHR ''-''"
proof (cases tok)
  case Nil
  then show ?thesis by (simp add: is_cluster_def positional_def)
next
  case (Cons a as)
  then show ?thesis by (cases as) (auto simp: is_cluster_def positional_def)
qed

lemma is_long_iff:
  "is_long tok \<longleftrightarrow> length tok > 1 \<and> tok ! 0 = CHR ''-'' \<and> tok ! 1 = CHR ''-''"
proof (cases tok)
  case Nil
  then show ?thesis by (simp add: is_long_def positional_def)
next
  case (Cons a as)
  then show ?thesis by (cases as) (auto simp: is_long_def positional_def)
qed

lemma token_classes: "positional tok \<or> is_cluster tok \<or> is_long tok"
  by (auto simp: is_cluster_def is_long_def)

lemma handleOption_positional:
  "positional tok \<Longrightarrow>
   handleOption (tok # rest) p env = (0, p\<lparr>remaining := remaining p @ [tok]\<rparr>, env)"
  by (auto simp: positional_iff)

lemma handleOption_cluster:
  "is_cluster tok \<Longrightarrow>
   handleOption (tok # rest) p env =
     (case shortCluster (drop 1 tok) (tok # rest) (options p) env of
        (r, opts', env') \<Rightarrow> (r, p\<lparr>options := opts'\<rparr>, env'))"
  by (simp add: is_cluster_iff)

lemma handleOption_long:
  "is_long tok \<Longrightarrow>
   handleOption (tok # rest) p env =
     (case longOptions (drop 2 tok) (tok # rest) (options p) env of
        (Some r, opts', env') \<Rightarrow> (r, p\<lparr>options := opts'\<rparr>, env')
      | (None, opts', env') \<Rightarrow>
          (- 1, p\<lparr>options := opts'\<rparr>, CLI_LOG_ERROR (ErrUnknownOption tok) env'))"
  by (simp add: is_long_iff)

declare handleOption.simps [simp del]

lemma cluster_last: "is_cluster tok \<Longrightarrow> drop 1 tok \<noteq> [] \<and> last (drop 1 tok) = last tok"
  by (cases tok) (auto simp: is_cluster_iff)

lemma handleOption_option:
  assumes "\<not> positional tok" and "handleOption (tok # rest) p env = (r, p', env')"
  shows "remaining p' = remaining p \<and> executableName p' = executableName p
       \<and> list_all2 evolved (options p) (options p')
       \<and> (r = - 1 \<or> r = (if consumes_parameter (options p) tok then 1 else 0))
       \<and> (r = 1 \<longrightarrow> rest \<noteq> [])"
proof (cases "is_cluster tok")
  case True
  obtain r1 opts1 env1 where
    s: "shortCluster (drop 1 tok) (tok # rest) (options p) env = (r1, opts1, env1)"
    by (cases "shortCluster (drop 1 tok) (tok # rest) (options p) env") auto
  with True assms(2) have eq: "r1 = r" "p' = p\<lparr>options := opts1\<rparr>"
    by (simp_all add: handleOption_cluster)
  from shortCluster_result [OF s] shortCluster_evolved [OF s] eq True cluster_last [OF True]
  show ?thesis by (auto simp: consumes_parameter_def)
next
  case False
  with assms(1) token_classes have l: "is_long tok" by blast
  obtain r1 opts1 env1 where
    s: "longOptions (drop 2 tok) (tok # rest) (options p) env = (r1, opts1, env1)"
    by (cases "longOptions (drop 2 tok) (tok # rest) (options p) env") auto
  note lr = longOptions_result [OF s]
  show ?thesis
  proof (cases r1)
    case None
    with s l assms(2) have "r = - 1" "p' = p\<lparr>options := opts1\<rparr>"
      by (simp_all add: handleOption_long)
    with lr show ?thesis by simp
  next
    case (Some r0)
    with s l assms(2) have eq: "r = r0" "p' = p\<lparr>options := opts1\<rparr>" "env' = env1"
      by (simp_all add: handleOption_long)
    from lr Some obtain opt opt0 where
      f: "find (\<lambda>opt. longName opt = drop 2 tok) (options p) = Some opt"
      and a: "applyOption opt (tok # rest) env = (r0, opt0, env1)"
      by (auto split: option.splits)
    from applyOption_result(2,3,6) [OF a] eq f l False lr
    show ?thesis by (auto simp: consumes_parameter_def split: if_splits)
  qed
qed

text \<open>The token loop.\<close>

lemma parseLoop_Cons_cases [consumes 1, case_names fail step]:
  assumes "parseLoop (a # as) p env = (ok, p', env')"
  obtains
    (fail) r where "handleOption (a # as) p env = (r, p', env')" "r < 0" "\<not> ok"
  | (step) r p1 env1 where "handleOption (a # as) p env = (r, p1, env1)" "0 \<le> r"
      "parseLoop (drop (nat r) as) p1 env1 = (ok, p', env')"
proof -
  obtain r p1 env1 where h: "handleOption (a # as) p env = (r, p1, env1)"
    by (cases "handleOption (a # as) p env") auto
  show ?thesis
  proof (cases "r < 0")
    case True
    with h assms have "p1 = p'" "env1 = env'" "\<not> ok" by auto
    with h True fail show ?thesis by blast
  next
    case False
    with h assms have "parseLoop (drop (nat r) as) p1 env1 = (ok, p', env')" by simp
    with h False step show ?thesis by force
  qed
qed

lemma handleOption_any:
  assumes "handleOption (tok # rest) p env = (r, p', env')"
  shows "list_all2 evolved (options p) (options p')"
    and "remaining p' = remaining p @ (if positional tok then [tok] else [])"
    and "(r = - 1 \<and> \<not> positional tok) \<or> r = (if consumes_parameter (options p) tok then 1 else 0)"
proof -
  have "list_all2 evolved (options p) (options p')
      \<and> remaining p' = remaining p @ (if positional tok then [tok] else [])
      \<and> ((r = - 1 \<and> \<not> positional tok) \<or> r = (if consumes_parameter (options p) tok then 1 else 0))"
  proof (cases "positional tok")
    case True
    then have "\<not> consumes_parameter (options p) tok"
      by (simp add: consumes_parameter_def is_cluster_def is_long_def)
    with True assms show ?thesis by (auto simp: handleOption_positional)
  next
    case False
    from handleOption_option [OF False assms] False show ?thesis by simp
  qed
  then show "list_all2 evolved (options p) (options p')"
    and "remaining p' = remaining p @ (if positional tok then [tok] else [])"
    and "(r = - 1 \<and> \<not> positional tok) \<or> r = (if consumes_parameter (options p) tok then 1 else 0)"
    by simp_all
qed

lemma parseLoop_remaining:
  "parseLoop args p env = (ok, p', env') \<Longrightarrow>
   \<exists>k \<le> length (dispatched (options p) args).
     remaining p' = remaining p @ filter positional (take k (dispatched (options p) args))
     \<and> (ok \<longleftrightarrow> k = length (dispatched (options p) args))
     \<and> (k < length (dispatched (options p) args)
          \<longrightarrow> \<not> positional (dispatched (options p) args ! k))"
proof (induction "length args" arbitrary: args p env rule: less_induct)
  case less
  show ?case
  proof (cases args)
    case Nil
    with less.prems show ?thesis by simp
  next
    case (Cons a as)
    from less.prems [unfolded Cons] show ?thesis
    proof (cases rule: parseLoop_Cons_cases)
      case (fail r)
      from handleOption_any(2,3) [OF fail(1)] fail(2)
      have "\<not> positional a" "remaining p' = remaining p" by (auto split: if_splits)
      then have "0 \<le> length (dispatched (options p) args)
        \<and> remaining p' = remaining p @ filter positional (take 0 (dispatched (options p) args))
        \<and> (ok \<longleftrightarrow> 0 = length (dispatched (options p) args))
        \<and> (0 < length (dispatched (options p) args)
              \<longrightarrow> \<not> positional (dispatched (options p) args ! 0))"
        using fail(3) Cons by simp
      then show ?thesis by blast
    next
      case (step r p1 env1)
      note h = handleOption_any [OF step(1)]
      from h(3) step(2) have r: "r = (if consumes_parameter (options p) a then 1 else 0)"
        by auto
      let ?rest = "drop (nat r) as"
      have d: "dispatched (options p) args = a # dispatched (options p1) ?rest"
        using r Cons dispatched_evolved [OF h(1)] by simp
      have "length ?rest < length args" using Cons by simp
      from less.hyps [OF this step(3)] obtain k where
        k: "k \<le> length (dispatched (options p1) ?rest)"
           "remaining p' = remaining p1 @ filter positional (take k (dispatched (options p1) ?rest))"
           "ok \<longleftrightarrow> k = length (dispatched (options p1) ?rest)"
           "k < length (dispatched (options p1) ?rest)
              \<longrightarrow> \<not> positional (dispatched (options p1) ?rest ! k)"
        by blast
      have "Suc k \<le> length (dispatched (options p) args)
        \<and> remaining p' = remaining p @ filter positional (take (Suc k) (dispatched (options p) args))
        \<and> (ok \<longleftrightarrow> Suc k = length (dispatched (options p) args))
        \<and> (Suc k < length (dispatched (options p) args)
              \<longrightarrow> \<not> positional (dispatched (options p) args ! Suc k))"
        using k h(2) by (simp add: d)
      then show ?thesis by blast
    qed
  qed
qed

text \<open>
  C7. The remaining-arguments list after \<^verbatim>\<open>parse\<close> is the list before it followed by
  the positional tokens (those that do not start with \<^verbatim>\<open>-\<close>, or are exactly \<^verbatim>\<open>-\<close>)
  among the tokens after the program name that the scan dispatches on, that is, those
  not consumed as an option's parameter: in the order encountered, unmodified, and
  nothing else. When \<^verbatim>\<open>parse\<close> succeeds these are all the dispatched tokens; when the
  scan stops at a failing token, which is never a positional one, they are the
  dispatched tokens before it.
\<close>

theorem parse_remaining_arguments:
  assumes "parse argv p env = (ok, p', env')"
  shows "(ok \<longrightarrow> remaining p'
                  = remaining p @ filter positional (dispatched (options p) (drop 1 argv)))
       \<and> (\<exists>k \<le> length (dispatched (options p) (drop 1 argv)).
            remaining p'
              = remaining p @ filter positional (take k (dispatched (options p) (drop 1 argv)))
            \<and> (k < length (dispatched (options p) (drop 1 argv))
                 \<longrightarrow> \<not> ok \<and> \<not> positional (dispatched (options p) (drop 1 argv) ! k)))"
proof -
  let ?q = "p\<lparr>executableName := (case argv of [] \<Rightarrow> None | a # _ \<Rightarrow> Some a)\<rparr>"
  let ?ds = "dispatched (options p) (drop 1 argv)"
  obtain ok1 p1 env1 where s: "parseLoop (drop 1 argv) ?q env = (ok1, p1, env1)"
    by (cases "parseLoop (drop 1 argv) ?q env") auto
  with assms have eq: "p' = p1" "ok \<longrightarrow> ok1"
    by (auto simp: parse_def split: bool.splits prod.splits)
  from parseLoop_remaining [OF s] obtain k where
    k: "k \<le> length ?ds" "remaining p1 = remaining p @ filter positional (take k ?ds)"
       "ok1 \<longleftrightarrow> k = length ?ds" "k < length ?ds \<longrightarrow> \<not> positional (?ds ! k)"
    by auto
  from k eq have "ok \<longrightarrow> remaining p' = remaining p @ filter positional ?ds" by auto
  moreover from k eq have "k \<le> length ?ds \<and> remaining p' = remaining p @ filter positional (take k ?ds)
      \<and> (k < length ?ds \<longrightarrow> \<not> ok \<and> \<not> positional (?ds ! k))" by auto
  ultimately show ?thesis by blast
qed

lemma test_run:
  "parse [''testExe'', ''-vvv'', ''-S'', ''something'', ''somefile''] test_parser example_env
   = (True,
      \<lparr>options = [(OptionFlagCount CHR ''v'' ''verbose'' ''Verbosity of the thing'' 0)\<lparr>isSet := True\<rparr>,
                  (OptionString CHR ''S'' ''string'' ''some string'' False 0)\<lparr>isSet := True\<rparr>],
       remaining = [''somefile''], executableName = Some ''testExe''\<rparr>,
      example_env\<lparr>ints := (ints example_env)(0 := 3),
                   strs := (strs example_env)(0 := Some ''something'')\<rparr>)"
  by (simp add: parse_def test_parser_def example_defs run_defs handleOption.simps)

lemma test_dispatched:
  "dispatched (options test_parser) (drop 1 [''testExe'', ''-vvv'', ''-S'', ''something'', ''somefile''])
     = [''-vvv'', ''-S'', ''somefile'']"
  by (simp add: test_parser_def example_defs consumes_parameter_def is_cluster_def is_long_def
        positional_def requiresParameter_def)

theorem parse_remaining_arguments_witness:
  "fst (parse [''testExe'', ''-vvv'', ''-S'', ''something'', ''somefile''] test_parser example_env)
   \<and> remaining (fst (snd (parse [''testExe'', ''-vvv'', ''-S'', ''something'', ''somefile'']
                              test_parser example_env)))
       = remaining test_parser
           @ filter positional
               (dispatched (options test_parser)
                  (drop 1 [''testExe'', ''-vvv'', ''-S'', ''something'', ''somefile'']))
   \<and> filter positional
        (dispatched (options test_parser)
           (drop 1 [''testExe'', ''-vvv'', ''-S'', ''something'', ''somefile'']))
       = [''somefile'']"
  using parse_remaining_arguments [OF test_run] test_run test_dispatched
  by (simp add: positional_def)

section \<open>Parameter options in a cluster\<close>

text \<open>Declarations with pairwise different short names.\<close>

lemma evolved_map_shortName:
  "list_all2 evolved opts opts' \<Longrightarrow> map shortName opts' = map shortName opts"
  by (induction rule: list_all2_induct) (simp_all add: evolved_fields)

lemma evolved_map_longName:
  "list_all2 evolved opts opts' \<Longrightarrow> map longName opts' = map longName opts"
  by (induction rule: list_all2_induct) (simp_all add: evolved_fields)

lemma evolved_member:
  "list_all2 evolved opts opts' \<Longrightarrow> opt \<in> set opts \<Longrightarrow> \<exists>opt' \<in> set opts'. evolved opt opt'"
  by (induction rule: list_all2_induct) auto

lemma shortOptions_no_match:
  "c \<notin> shortName ` set opts \<Longrightarrow> shortOptions c mid argv opts h env = (None, h, opts, env)"
  by (induction opts) auto

lemma shortOptions_distinct:
  assumes "distinct (map shortName opts)" and "opt \<in> set opts" and "shortName opt = c"
  shows "shortOptions c mid argv opts h env =
           (if requiresParameter opt \<and> mid then
              (Some (- 1), h, opts, CLI_LOG_ERROR (ErrMidCluster c) env)
            else
              case applyOption opt argv env of
                (r, opt', env') \<Rightarrow>
                  (if r \<noteq> 0 then Some r else None, True,
                   map (\<lambda>x. if shortName x = c then opt' else x) opts, env'))"
  using assms
proof (induction opts arbitrary: h)
  case Nil
  then show ?case by simp
next
  case (Cons x xs)
  show ?case
  proof (cases "x = opt")
    case True
    with Cons.prems have n: "c \<notin> shortName ` set xs" by auto
    then have m: "map (\<lambda>y. if shortName y = c then z else y) xs = xs" for z
      by (induction xs) auto
    from True Cons.prems(3) n m show ?thesis
      by (auto simp: shortOptions_no_match split: prod.splits)
  next
    case False
    with Cons.prems have "opt \<in> set xs" "shortName x \<noteq> c" "distinct (map shortName xs)"
      by auto
    with Cons.IH [of h] Cons.prems(3) show ?thesis
      by (auto split: prod.splits)
  qed
qed

lemma applyOption_bound:
  assumes "applyOption opt argv env = (1, opt', env')"
  shows "bound_to opt env' (argv ! 1)"
  using assms
  by (cases "type opt"; simp add: applyOption_def requiresParameter_def Let_def bound_to_def
        split: if_splits; auto)+

lemma bound_to_evolved: "evolved opt opt' \<Longrightarrow> bound_to opt' = bound_to opt"
  by (intro ext) (simp add: bound_to_def evolved_fields split: Type.splits)

lemma shortCluster_last_parameter:
  assumes "distinct (map shortName opts)" and "o1 \<in> set opts" and "evolved opt o1"
    and "requiresParameter opt"
    and "shortCluster (pre @ [shortName opt]) argv opts env = (r, opts', env')" and "r \<noteq> - 1"
  shows "r = 1 \<and> 2 \<le> length argv \<and> bound_to opt env' (argv ! 1)"
  using assms(1,2,3,5)
proof (induction pre arbitrary: opts env o1)
  case Nil
  have sn: "shortName o1 = shortName opt" and rp: "requiresParameter o1"
    using Nil(3) assms(4) by (simp_all add: evolved_fields)
  from Nil(4) have "shortCluster [shortName opt] argv opts env = (r, opts', env')" by simp
  then show ?case
  proof (cases rule: shortCluster_Cons_cases)
    case (return h)
    from shortOptions_result [OF return] assms(6) have r1: "r = 1" "2 \<le> length argv" by auto
    from return r1 shortOptions_distinct [OF Nil(1,2) sn, of False argv False env]
    obtain opt0 where "applyOption o1 argv env = (1, opt0, env')"
      by (auto split: prod.splits if_splits)
    from applyOption_bound [OF this] bound_to_evolved [OF Nil(3)] r1 show ?thesis by simp
  next
    case (unknown env1)
    with assms(6) show ?thesis by simp
  next
    case (continue opts1 env1)
    from shortOptions_result [OF continue(1)] Nil(2) sn rp show ?thesis
      by (auto simp: list_ex_iff)
  qed
next
  case (Cons x pre)
  from Cons.prems(4) have "shortCluster (x # pre @ [shortName opt]) argv opts env = (r, opts', env')"
    by simp
  then show ?case
  proof (cases rule: shortCluster_Cons_cases)
    case (return h)
    from shortOptions_result [OF return] assms(6) show ?thesis by auto
  next
    case (unknown env1)
    with assms(6) show ?thesis by simp
  next
    case (continue opts1 env1)
    note e = shortOptions_evolved [OF continue(1)]
    from evolved_map_shortName [OF e] Cons.prems(1) have d: "distinct (map shortName opts1)"
      by simp
    from evolved_member [OF e Cons.prems(2)] obtain o2 where
      o2: "o2 \<in> set opts1" "evolved o1 o2" by blast
    from evolved_trans [OF Cons.prems(3) o2(2)] have "evolved opt o2" .
    from Cons.IH [OF d o2(1) this continue(2)] show ?thesis .
  qed
qed

text \<open>
  C3. In a short-option cluster, a character that matches an option requiring a
  parameter and is not the last character of the cluster makes \<^verbatim>\<open>handleOption\<close>
  return -1 and the scan fail. When it is the last character and the cluster is handled
  without error (short names being pairwise different), the result is 1, the next whole
  token is bound as that option's parameter, and the scan goes on after that token.
\<close>

theorem cluster_parameter_option:
  assumes "opt \<in> set (options p)" and "requiresParameter opt"
    and "tok = CHR ''-'' # pre @ shortName opt # post"
    and "hd (pre @ [shortName opt]) \<noteq> CHR ''-''"
    and "handleOption (tok # rest) p env = (r, p', env')"
  shows "(post \<noteq> [] \<longrightarrow> r = - 1 \<and> fst (parseLoop (tok # rest) p env) = False)
       \<and> (post = [] \<and> distinct (map shortName (options p)) \<and> r \<noteq> - 1 \<longrightarrow>
            r = 1 \<and> (\<exists>nxt rest'. rest = nxt # rest' \<and> bound_to opt env' nxt
                       \<and> parseLoop (tok # rest) p env = parseLoop rest' p' env'))"
proof -
  from assms(3,4) have c: "is_cluster tok" and d: "drop 1 tok = pre @ shortName opt # post"
    by (cases pre; simp add: is_cluster_iff)+
  obtain r1 opts1 env1 where
    s: "shortCluster (pre @ shortName opt # post) (tok # rest) (options p) env = (r1, opts1, env1)"
    by (cases "shortCluster (pre @ shortName opt # post) (tok # rest) (options p) env") auto
  with c d assms(5) have eq: "r1 = r" "env1 = env'" "p' = p\<lparr>options := opts1\<rparr>"
    by (simp_all add: handleOption_cluster)
  have le: "list_ex (\<lambda>x. shortName x = shortName opt \<and> requiresParameter x) (options p)"
    using assms(1,2) by (auto simp: list_ex_iff)
  have "post \<noteq> [] \<longrightarrow> r = - 1 \<and> fst (parseLoop (tok # rest) p env) = False"
  proof
    assume "post \<noteq> []"
    from shortCluster_middle [OF le this, of pre "tok # rest" env] s eq have "r = - 1" by simp
    with assms(5) show "r = - 1 \<and> fst (parseLoop (tok # rest) p env) = False" by simp
  qed
  moreover have "post = [] \<and> distinct (map shortName (options p)) \<and> r \<noteq> - 1 \<longrightarrow>
            r = 1 \<and> (\<exists>nxt rest'. rest = nxt # rest' \<and> bound_to opt env' nxt
                       \<and> parseLoop (tok # rest) p env = parseLoop rest' p' env')"
  proof
    assume a: "post = [] \<and> distinct (map shortName (options p)) \<and> r \<noteq> - 1"
    with s eq have s': "shortCluster (pre @ [shortName opt]) (tok # rest) (options p) env
                         = (r, opts1, env')" by simp
    from a have "distinct (map shortName (options p))" "r \<noteq> - 1" by simp_all
    from shortCluster_last_parameter [OF this(1) assms(1) evolved_refl assms(2) s' this(2)]
    have r: "r = 1" "2 \<le> length (tok # rest)" "bound_to opt env' ((tok # rest) ! 1)" by simp_all
    then obtain nxt rest' where n: "rest = nxt # rest'" by (cases rest) auto
    with r assms(5) have "bound_to opt env' nxt"
      "parseLoop (tok # rest) p env = parseLoop rest' p' env'" by simp_all
    with r n show "r = 1 \<and> (\<exists>nxt rest'. rest = nxt # rest' \<and> bound_to opt env' nxt
                       \<and> parseLoop (tok # rest) p env = parseLoop rest' p' env')" by simp
  qed
  ultimately show ?thesis by blast
qed

lemma test_middle_run:
  "handleOption [''-vvSv'', ''fileName''] test_parser example_env
   = (- 1,
      test_parser\<lparr>options :=
        [(OptionFlagCount CHR ''v'' ''verbose'' ''Verbosity of the thing'' 0)\<lparr>isSet := True\<rparr>,
         OptionString CHR ''S'' ''string'' ''some string'' False 0]\<rparr>,
      example_env\<lparr>ints := (ints example_env)(0 := 2), errlog := [ErrMidCluster CHR ''S'']\<rparr>)"
  by (simp add: test_parser_def example_defs run_defs handleOption.simps)

lemma test_end_run:
  "handleOption [''-vvvS'', ''fileName''] test_parser example_env
   = (1,
      test_parser\<lparr>options :=
        [(OptionFlagCount CHR ''v'' ''verbose'' ''Verbosity of the thing'' 0)\<lparr>isSet := True\<rparr>,
         (OptionString CHR ''S'' ''string'' ''some string'' False 0)\<lparr>isSet := True\<rparr>]\<rparr>,
      example_env\<lparr>ints := (ints example_env)(0 := 3),
                   strs := (strs example_env)(0 := Some ''fileName'')\<rparr>)"
  by (simp add: test_parser_def example_defs run_defs handleOption.simps)

theorem cluster_parameter_option_witness:
  "fst (handleOption [''-vvSv'', ''fileName''] test_parser example_env) = - 1
   \<and> fst (parseLoop [''-vvSv'', ''fileName''] test_parser example_env) = False
   \<and> fst (handleOption [''-vvvS'', ''fileName''] test_parser example_env) = 1
   \<and> bound_to (OptionString CHR ''S'' ''string'' ''some string'' False 0)
        (snd (snd (handleOption [''-vvvS'', ''fileName''] test_parser example_env))) ''fileName''
   \<and> parseLoop [''-vvvS'', ''fileName''] test_parser example_env
       = parseLoop []
           (fst (snd (handleOption [''-vvvS'', ''fileName''] test_parser example_env)))
           (snd (snd (handleOption [''-vvvS'', ''fileName''] test_parser example_env)))"
proof -
  let ?S = "OptionString CHR ''S'' ''string'' ''some string'' False 0"
  have m: "?S \<in> set (options test_parser)" by (simp add: test_parser_def)
  have q: "requiresParameter ?S" by (simp add: OptionString_def requiresParameter_def)
  have sn: "shortName ?S = CHR ''S''" by (simp add: OptionString_def)
  have d: "distinct (map shortName (options test_parser))"
    by (simp add: test_parser_def example_defs)
  have t1: "''-vvSv'' = CHR ''-'' # ''vv'' @ shortName ?S # ''v''" by (simp add: sn)
  have t2: "''-vvvS'' = CHR ''-'' # ''vvv'' @ shortName ?S # []" by (simp add: sn)
  have h1: "hd (''vv'' @ [shortName ?S]) \<noteq> CHR ''-''" by simp
  have h2: "hd (''vvv'' @ [shortName ?S]) \<noteq> CHR ''-''" by simp
  from cluster_parameter_option [OF m q t1 h1 test_middle_run]
       cluster_parameter_option [OF m q t2 h2 test_end_run] d
  show ?thesis by (simp add: test_middle_run test_end_run)
qed

section \<open>Effects of a successful scan\<close>

lemma applyOption_success:
  assumes "applyOption opt argv env = (r, opt', env')" and "0 \<le> r"
  shows "opt' = opt\<lparr>isSet := True\<rparr>"
    and "type opt \<noteq> FlagCount \<Longrightarrow> \<not> isSet opt"
    and "ints env' q =
           (if type opt = FlagCount \<and> valuePointer opt = q then ints env q + 1
            else if type opt = Int' \<and> valuePointer opt = q then atoi (argv ! 1)
            else ints env q)"
  using assms
  by (cases "type opt"; simp add: applyOption_def requiresParameter_def Let_def CLI_LOG_ERROR_def
        split: if_splits; auto)+

lemma shortOptions_effect:
  assumes "distinct (map shortName opts)"
    and "shortOptions x mid argv opts h env = (r, h', opts', env')" and "r \<noteq> Some (- 1)"
  shows "(x \<notin> shortName ` set opts \<and> opts' = opts \<and> env' = env)
       \<or> (\<exists>opt \<in> set opts. \<exists>r0. shortName opt = x
            \<and> applyOption opt argv env = (r0, opt\<lparr>isSet := True\<rparr>, env') \<and> 0 \<le> r0
            \<and> opts' = map (\<lambda>y. if shortName y = x then opt\<lparr>isSet := True\<rparr> else y) opts)"
proof (cases "x \<in> shortName ` set opts")
  case False
  with assms(2) show ?thesis by (simp add: shortOptions_no_match)
next
  case True
  then obtain opt where o: "opt \<in> set opts" "shortName opt = x" by auto
  obtain r0 opt0 env0 where a: "applyOption opt argv env = (r0, opt0, env0)"
    by (cases "applyOption opt argv env") auto
  from shortOptions_distinct [OF assms(1) o, of mid argv h env] assms(2,3) a
  have e: "r = (if r0 \<noteq> 0 then Some r0 else None)" "env0 = env'"
    "opts' = map (\<lambda>y. if shortName y = x then opt0 else y) opts"
    by (auto split: if_splits)
  from e(1) assms(3) applyOption_result(2) [OF a] have "0 \<le> r0" by auto
  from applyOption_success(1) [OF a this] a e \<open>0 \<le> r0\<close> o show ?thesis by auto
qed

text \<open>
  A quantity \<open>\<Phi>\<close> of the options and the caller's memory that every successful
  application of the option named \<open>c\<close> / \<open>n\<close> raises by one, and that no other
  successful application changes, is raised by a successful scan by the number of
  times the option is named.
\<close>

lemma shortCluster_potential:
  fixes \<Phi> :: "Option list \<Rightarrow> Env \<Rightarrow> int"
  assumes char_step: "\<And>x mid opts h env r h' opts' env'.
      I opts \<Longrightarrow> shortOptions x mid argv opts h env = (r, h', opts', env') \<Longrightarrow> r \<noteq> Some (- 1)
        \<Longrightarrow> \<Phi> opts' env' = \<Phi> opts env + (if x = c then 1 else 0)"
    and inv: "\<And>opts opts'. I opts \<Longrightarrow> list_all2 evolved opts opts' \<Longrightarrow> I opts'"
    and "I opts" and "shortCluster cs argv opts env = (r, opts', env')" and "r \<noteq> - 1"
  shows "\<Phi> opts' env' = \<Phi> opts env + int (count_list cs c)"
  using assms(3,4)
proof (induction cs arbitrary: opts env)
  case Nil
  then show ?case by simp
next
  case (Cons x cs)
  from Cons.prems(2) show ?case
  proof (cases rule: shortCluster_Cons_cases)
    case (return h)
    from shortOptions_result [OF return] assms(5) have "cs = []" by auto
    with char_step [OF Cons.prems(1) return] assms(5) show ?thesis by simp
  next
    case (unknown env1)
    with assms(5) show ?thesis by simp
  next
    case (continue opts1 env1)
    from char_step [OF Cons.prems(1) continue(1)]
    have 1: "\<Phi> opts1 env1 = \<Phi> opts env + (if x = c then 1 else 0)" by simp
    from inv [OF Cons.prems(1) shortOptions_evolved [OF continue(1)]] have "I opts1" .
    from Cons.IH [OF this continue(2)] 1 show ?thesis by simp
  qed
qed

lemma handleOption_potential:
  fixes \<Phi> :: "Option list \<Rightarrow> Env \<Rightarrow> int"
  assumes char_step: "\<And>x mid argv opts h env r h' opts' env'.
      I opts \<Longrightarrow> shortOptions x mid argv opts h env = (r, h', opts', env') \<Longrightarrow> r \<noteq> Some (- 1)
        \<Longrightarrow> \<Phi> opts' env' = \<Phi> opts env + (if x = shortName t then 1 else 0)"
    and long_step: "\<And>name argv opts env r opts' env'.
      I opts \<Longrightarrow> longOptions name argv opts env = (Some r, opts', env') \<Longrightarrow> 0 \<le> r
        \<Longrightarrow> \<Phi> opts' env' = \<Phi> opts env + (if name = longName t then 1 else 0)"
    and inv: "\<And>opts opts'. I opts \<Longrightarrow> list_all2 evolved opts opts' \<Longrightarrow> I opts'"
    and "I (options p)" and "handleOption (tok # rest) p env = (r, p', env')" and "0 \<le> r"
  shows "\<Phi> (options p') env' = \<Phi> (options p) env + int (times_named t tok)"
proof -
  consider (pos) "positional tok" | (cluster) "is_cluster tok" | (long) "is_long tok"
    using token_classes by blast
  then show ?thesis
  proof cases
    case pos
    with assms(5) show ?thesis
      by (auto simp: handleOption_positional times_named_def is_cluster_def is_long_def)
  next
    case cluster
    obtain r1 opts1 env1 where
      s: "shortCluster (drop 1 tok) (tok # rest) (options p) env = (r1, opts1, env1)"
      by (cases "shortCluster (drop 1 tok) (tok # rest) (options p) env") auto
    with cluster assms(5) have eq: "r1 = r" "p' = p\<lparr>options := opts1\<rparr>" "env1 = env'"
      by (simp_all add: handleOption_cluster)
    from eq assms(6) have "r1 \<noteq> - 1" by simp
    from shortCluster_potential [of I "tok # rest" \<Phi> "shortName t", OF char_step inv assms(4) s this]
      eq cluster show ?thesis by (simp add: times_named_def)
  next
    case long
    then have nc: "\<not> is_cluster tok" by (simp add: is_cluster_def is_long_def)
    obtain r1 opts1 env1 where
      s: "longOptions (drop 2 tok) (tok # rest) (options p) env = (r1, opts1, env1)"
      by (cases "longOptions (drop 2 tok) (tok # rest) (options p) env") auto
    show ?thesis
    proof (cases r1)
      case None
      with s long assms(5,6) show ?thesis by (simp add: handleOption_long)
    next
      case (Some r0)
      with s long assms(5) have eq: "r0 = r" "p' = p\<lparr>options := opts1\<rparr>" "env1 = env'"
        by (simp_all add: handleOption_long)
      from s Some eq have "longOptions (drop 2 tok) (tok # rest) (options p) env
                            = (Some r, opts1, env')" by simp
      from long_step [OF assms(4) this assms(6)] eq \<open>is_long tok\<close> nc show ?thesis
        by (simp add: times_named_def)
    qed
  qed
qed

lemma times_named_evolved: "evolved t t' \<Longrightarrow> times_named t' = times_named t"
  by (intro ext) (simp add: times_named_def evolved_fields)

lemma parseLoop_potential:
  fixes \<Phi> :: "Option list \<Rightarrow> Env \<Rightarrow> int"
  assumes char_step: "\<And>x mid argv opts h env r h' opts' env'.
      I opts \<Longrightarrow> shortOptions x mid argv opts h env = (r, h', opts', env') \<Longrightarrow> r \<noteq> Some (- 1)
        \<Longrightarrow> \<Phi> opts' env' = \<Phi> opts env + (if x = shortName t then 1 else 0)"
    and long_step: "\<And>name argv opts env r opts' env'.
      I opts \<Longrightarrow> longOptions name argv opts env = (Some r, opts', env') \<Longrightarrow> 0 \<le> r
        \<Longrightarrow> \<Phi> opts' env' = \<Phi> opts env + (if name = longName t then 1 else 0)"
    and inv: "\<And>opts opts'. I opts \<Longrightarrow> list_all2 evolved opts opts' \<Longrightarrow> I opts'"
    and "I (options p)" and "parseLoop args p env = (True, p', env')"
  shows "\<Phi> (options p') env' = \<Phi> (options p) env + int (invocations (options p) t args)"
  using assms(4,5)
proof (induction "length args" arbitrary: args p env rule: less_induct)
  case less
  show ?case
  proof (cases args)
    case Nil
    with less.prems show ?thesis by (simp add: invocations_def)
  next
    case (Cons a as)
    from less.prems(2) [unfolded Cons] show ?thesis
    proof (cases rule: parseLoop_Cons_cases)
      case (fail r)
      then show ?thesis by simp
    next
      case (step r p1 env1)
      note h = handleOption_any [OF step(1)]
      from h(3) step(2) have r: "r = (if consumes_parameter (options p) a then 1 else 0)"
        by auto
      let ?rest = "drop (nat r) as"
      have d: "dispatched (options p) args = a # dispatched (options p1) ?rest"
        using r Cons dispatched_evolved [OF h(1)] by simp
      from handleOption_potential [of I \<Phi> t, OF char_step long_step inv less.prems(1) step(1,2)]
      have 1: "\<Phi> (options p1) env1 = \<Phi> (options p) env + int (times_named t a)" by simp
      have "length ?rest < length args" using Cons by simp
      from less.hyps [OF this inv [OF less.prems(1) h(1)] step(3)] 1 d
      show ?thesis by (simp add: invocations_def)
    qed
  qed
qed

lemma distinct_map_eq:
  "distinct (map f xs) \<Longrightarrow> a \<in> set xs \<Longrightarrow> b \<in> set xs \<Longrightarrow> f a = f b \<Longrightarrow> a = b"
  by (auto simp: distinct_map dest: inj_onD)

lemma longOptions_distinct:
  assumes "distinct (map longName opts)" and "opt \<in> set opts" and "longName opt = name"
  shows "longOptions name argv opts env =
           (case applyOption opt argv env of
              (r, opt', env') \<Rightarrow>
                (Some r, map (\<lambda>x. if longName x = name then opt' else x) opts, env'))"
  using assms
proof (induction opts)
  case Nil
  then show ?case by simp
next
  case (Cons x xs)
  show ?case
  proof (cases "x = opt")
    case True
    with Cons.prems have n: "name \<notin> longName ` set xs" by auto
    then have m: "map (\<lambda>y. if longName y = name then z else y) xs = xs" for z
      by (induction xs) auto
    from True Cons.prems(3) m show ?thesis
      by (auto split: prod.splits)
  next
    case False
    with Cons.prems have "opt \<in> set xs" "longName x \<noteq> name" "distinct (map longName xs)"
      by auto
    with Cons.IH Cons.prems(3) show ?thesis
      by (auto split: prod.splits)
  qed
qed

lemma longOptions_effect:
  assumes "distinct (map longName opts)"
    and "longOptions name argv opts env = (Some r, opts', env')" and "0 \<le> r"
  shows "\<exists>opt \<in> set opts. longName opt = name
            \<and> applyOption opt argv env = (r, opt\<lparr>isSet := True\<rparr>, env')
            \<and> opts' = map (\<lambda>y. if longName y = name then opt\<lparr>isSet := True\<rparr> else y) opts"
proof -
  from longOptions_result [OF assms(2)] obtain opt where
    f: "find (\<lambda>opt. longName opt = name) opts = Some opt"
    by (auto split: option.splits)
  then have o: "opt \<in> set opts" "longName opt = name"
    by (auto simp: find_Some_iff)
  obtain r0 opt0 env0 where a: "applyOption opt argv env = (r0, opt0, env0)"
    by (cases "applyOption opt argv env") auto
  from longOptions_distinct [OF assms(1) o, of argv env] assms(2) a
  have e: "r0 = r" "env0 = env'" "opts' = map (\<lambda>y. if longName y = name then opt0 else y) opts"
    by auto
  from a e assms(3) applyOption_success(1) [OF a] o show ?thesis by auto
qed

lemma declared_evolved:
  assumes "declared opts t" and "list_all2 evolved opts opts'"
  shows "declared opts' t"
proof -
  from assms(1) obtain o1 where "o1 \<in> set opts" "evolved t o1"
    by (auto simp: declared_def list_ex_iff)
  with evolved_member [OF assms(2)] evolved_trans obtain o2 where "o2 \<in> set opts'" "evolved t o2"
    by blast
  with assms show ?thesis
    by (auto simp: declared_def list_ex_iff evolved_map_shortName evolved_map_longName)
qed

lemma declared_target:
  assumes "declared opts t"
  shows "\<exists>o1 \<in> set opts. evolved t o1
           \<and> (\<forall>x \<in> set opts. shortName x = shortName t \<longrightarrow> x = o1)
           \<and> (\<forall>x \<in> set opts. longName x = longName t \<longrightarrow> x = o1)"
proof -
  from assms obtain o1 where o: "o1 \<in> set opts" "evolved t o1"
    by (auto simp: declared_def list_ex_iff)
  from assms have d: "distinct (map shortName opts)" "distinct (map longName opts)"
    by (simp_all add: declared_def)
  have "\<forall>x \<in> set opts. shortName x = shortName t \<longrightarrow> x = o1"
    using distinct_map_eq [OF d(1) _ o(1)] evolved_fields(2) [OF o(2)] by simp
  moreover have "\<forall>x \<in> set opts. longName x = longName t \<longrightarrow> x = o1"
    using distinct_map_eq [OF d(2) _ o(1)] evolved_fields(3) [OF o(2)] by simp
  ultimately show ?thesis using o by blast
qed

section \<open>Counting flags\<close>

lemma unaliased_evolved:
  "list_all2 evolved opts opts' \<Longrightarrow> unaliased opts' t = unaliased opts t"
  unfolding unaliased_def
  by (induction rule: list_all2_induct) (simp_all add: evolved_fields)

lemma unaliased_other:
  assumes "unaliased opts t" and "x \<in> set opts" and "shortName x \<noteq> shortName t"
    and "applyOption x argv env = (r, x', env')" and "0 \<le> r"
  shows "ints env' (valuePointer t) = ints env (valuePointer t)"
proof -
  from assms(1,2,3) have "(type x \<noteq> Int' \<and> type x \<noteq> FlagCount) \<or> valuePointer x \<noteq> valuePointer t"
    by (auto simp: unaliased_def list_all_iff)
  with applyOption_success(3) [OF assms(4,5), of "valuePointer t"] show ?thesis by auto
qed

lemma shortOptions_counts:
  assumes "declared opts t \<and> unaliased opts t" and "type t = FlagCount"
    and "shortOptions x mid argv opts h env = (r, h', opts', env')" and "r \<noteq> Some (- 1)"
  shows "ints env' (valuePointer t)
           = ints env (valuePointer t) + (if x = shortName t then 1 else 0)"
proof -
  from assms(1) have dec: "declared opts t" and un: "unaliased opts t" by simp_all
  from dec have d: "distinct (map shortName opts)" by (simp add: declared_def)
  from declared_target [OF dec] obtain o1 where o1: "o1 \<in> set opts" "evolved t o1"
    "\<forall>y \<in> set opts. shortName y = shortName t \<longrightarrow> y = o1"
    "\<forall>y \<in> set opts. longName y = longName t \<longrightarrow> y = o1"
    by blast
  note f = evolved_fields [OF o1(2)]
  from shortOptions_effect [OF d assms(3,4)] show ?thesis
  proof (elim disjE conjE bexE exE)
    assume "x \<notin> shortName ` set opts" "env' = env"
    with o1(1) f(2) have "x \<noteq> shortName t" by (metis image_eqI)
    with \<open>env' = env\<close> show ?thesis by simp
  next
    fix opt r0
    assume a: "opt \<in> set opts" "shortName opt = x"
      "applyOption opt argv env = (r0, opt\<lparr>isSet := True\<rparr>, env')" "0 \<le> r0"
    show ?thesis
    proof (cases "x = shortName t")
      case True
      with a o1(3) have "opt = o1" by simp
      with applyOption_success(3) [OF a(3,4), of "valuePointer t"] f assms(2) True
      show ?thesis by simp
    next
      case False
      with unaliased_other [OF un a(1) _ a(3,4)] a(2) show ?thesis by simp
    qed
  qed
qed

lemma longOptions_counts:
  assumes "declared opts t \<and> unaliased opts t" and "type t = FlagCount"
    and "longOptions name argv opts env = (Some r, opts', env')" and "0 \<le> r"
  shows "ints env' (valuePointer t)
           = ints env (valuePointer t) + (if name = longName t then 1 else 0)"
proof -
  from assms(1) have dec: "declared opts t" and un: "unaliased opts t" by simp_all
  from dec have d: "distinct (map longName opts)" by (simp add: declared_def)
  from declared_target [OF dec] obtain o1 where o1: "o1 \<in> set opts" "evolved t o1"
    "\<forall>y \<in> set opts. shortName y = shortName t \<longrightarrow> y = o1"
    "\<forall>y \<in> set opts. longName y = longName t \<longrightarrow> y = o1"
    by blast
  note f = evolved_fields [OF o1(2)]
  from longOptions_effect [OF d assms(3,4)] obtain opt where
    a: "opt \<in> set opts" "longName opt = name"
       "applyOption opt argv env = (r, opt\<lparr>isSet := True\<rparr>, env')" by blast
  show ?thesis
  proof (cases "name = longName t")
    case True
    with a o1(4) have "opt = o1" by simp
    with applyOption_success(3) [OF a(3) assms(4), of "valuePointer t"] f assms(2) True
    show ?thesis by simp
  next
    case False
    have "shortName opt \<noteq> shortName t"
    proof
      assume "shortName opt = shortName t"
      with o1(3) a(1) have "opt = o1" by blast
      with f(3) a(2) False show False by simp
    qed
    from unaliased_other [OF un a(1) this a(3) assms(4)] False show ?thesis by simp
  qed
qed

lemma checkRequired_ok: "checkRequired opts env = (True, env') \<Longrightarrow> env' = env"
  by (simp add: checkRequired_find split: option.splits)

lemma parse_ok:
  assumes "parse argv p env = (True, p', env')"
  shows "parseLoop (drop 1 argv)
           (p\<lparr>executableName := (case argv of [] \<Rightarrow> None | a # _ \<Rightarrow> Some a)\<rparr>) env
         = (True, p', env')"
proof -
  let ?q = "p\<lparr>executableName := (case argv of [] \<Rightarrow> None | a # _ \<Rightarrow> Some a)\<rparr>"
  obtain ok1 p1 env1 where s: "parseLoop (drop 1 argv) ?q env = (ok1, p1, env1)"
    by (cases "parseLoop (drop 1 argv) ?q env") auto
  show ?thesis
  proof (cases ok1)
    case False
    with s assms show ?thesis by (simp add: parse_def)
  next
    case True
    obtain ok2 env2 where c: "checkRequired (options p1) env1 = (ok2, env2)"
      by (cases "checkRequired (options p1) env1") auto
    with True s assms have "ok2" "p1 = p'" "env2 = env'" by (simp_all add: parse_def)
    with c checkRequired_ok [of "options p1" env1 env2] s True show ?thesis by simp
  qed
qed

text \<open>
  C5 (as amended). For a \<^verbatim>\<open>FlagCount\<close> option, among options with pairwise different
  short names and pairwise different long names, whose counter no other \<^verbatim>\<open>Int\<close> or
  \<^verbatim>\<open>FlagCount\<close> option is bound to: a successful \<^verbatim>\<open>parse\<close> in which the option is
  named \<open>n\<close> times, in clusters or by its long name, leaves the counter at its initial
  value plus \<open>n\<close>, as long as that sum is an \<^verbatim>\<open>int\<close>. With \<open>n = 0\<close> the initial value
  is unchanged; the counter is \<open>n\<close> when the caller initialised it to 0.
\<close>

theorem flag_count_adds_invocations:
  assumes "distinct (map shortName (options p))" and "distinct (map longName (options p))"
    and "opt \<in> set (options p)" and "type opt = FlagCount" and "unaliased (options p) opt"
    and "parse argv p env = (True, p', env')"
    and "- 2147483648 \<le> ints env (valuePointer opt)"
    and "ints env (valuePointer opt) + int (invocations (options p) opt (drop 1 argv)) \<le> 2147483647"
  shows "ints env' (valuePointer opt)
           = ints env (valuePointer opt) + int (invocations (options p) opt (drop 1 argv))"
proof -
  let ?q = "p\<lparr>executableName := (case argv of [] \<Rightarrow> None | a # _ \<Rightarrow> Some a)\<rparr>"
  let ?I = "\<lambda>opts. declared opts opt \<and> unaliased opts opt"
  have i: "?I (options ?q)"
    using assms(1,2,3,5) by (auto simp: declared_def list_ex_iff intro: bexI [of _ opt])
  have inv: "\<And>opts opts'. ?I opts \<Longrightarrow> list_all2 evolved opts opts' \<Longrightarrow> ?I opts'"
    using declared_evolved unaliased_evolved by blast
  from parseLoop_potential [of ?I "\<lambda>opts env. ints env (valuePointer opt)" opt,
      OF shortOptions_counts [OF _ assms(4)] longOptions_counts [OF _ assms(4)] inv i
         parse_ok [OF assms(6)]]
  show ?thesis by simp
qed

lemmas token_defs =
  consumes_parameter_def is_cluster_def is_long_def positional_def times_named_def
  invocations_def

theorem flag_count_adds_invocations_witness:
  "ints (snd (snd (parse [''testExe'', ''-vvv'', ''-S'', ''something'', ''somefile'']
                     test_parser example_env)))
        (valuePointer (OptionFlagCount CHR ''v'' ''verbose'' ''Verbosity of the thing'' 0))
   = ints example_env
       (valuePointer (OptionFlagCount CHR ''v'' ''verbose'' ''Verbosity of the thing'' 0))
     + int (invocations (options test_parser)
              (OptionFlagCount CHR ''v'' ''verbose'' ''Verbosity of the thing'' 0)
              (drop 1 [''testExe'', ''-vvv'', ''-S'', ''something'', ''somefile'']))
   \<and> invocations (options test_parser)
        (OptionFlagCount CHR ''v'' ''verbose'' ''Verbosity of the thing'' 0)
        (drop 1 [''testExe'', ''-vvv'', ''-S'', ''something'', ''somefile'']) = 3"
proof -
  let ?V = "OptionFlagCount CHR ''v'' ''verbose'' ''Verbosity of the thing'' 0"
  let ?argv = "[''testExe'', ''-vvv'', ''-S'', ''something'', ''somefile'']"
  have d1: "distinct (map shortName (options test_parser))"
    and d2: "distinct (map longName (options test_parser))"
    and m: "?V \<in> set (options test_parser)"
    and t: "type ?V = FlagCount"
    and u: "unaliased (options test_parser) ?V"
    by (simp_all add: test_parser_def example_defs unaliased_def)
  have n: "invocations (options test_parser) ?V (drop 1 ?argv) = 3"
    by (simp add: test_parser_def example_defs token_defs)
  have b1: "- 2147483648 \<le> ints example_env (valuePointer ?V)"
    by (simp add: example_defs)
  have b2: "ints example_env (valuePointer ?V)
              + int (invocations (options test_parser) ?V (drop 1 ?argv)) \<le> 2147483647"
    unfolding n by (simp add: example_defs)
  from flag_count_adds_invocations [OF d1 d2 m t u test_run b1 b2] n show ?thesis
    by (simp add: test_run)
qed

theorem flag_count_initial_value_counterexample:
  "invocations (options test_parser)
     (OptionFlagCount CHR ''v'' ''verbose'' ''Verbosity of the thing'' 0)
     (drop 1 [''testExe'', ''-vv'']) = 2
   \<and> fst (parse [''testExe'', ''-vv''] test_parser (example_env\<lparr>ints := (\<lambda>_. 5)\<rparr>))
   \<and> ints (snd (snd (parse [''testExe'', ''-vv''] test_parser
                        (example_env\<lparr>ints := (\<lambda>_. 5)\<rparr>)))) 0 = 7"
  by (simp add: parse_def test_parser_def example_defs run_defs handleOption.simps token_defs)

section \<open>A second application\<close>

lemma shortOptions_sets:
  assumes "declared opts t" and "type t \<noteq> FlagCount"
    and "shortOptions x mid argv opts h env = (r, h', opts', env')" and "r \<noteq> Some (- 1)"
  shows "(of_bool (was_set opts' t) :: int)
           = of_bool (was_set opts t) + (if x = shortName t then 1 else 0)"
proof -
  from assms(1) have d: "distinct (map shortName opts)" by (simp add: declared_def)
  from declared_target [OF assms(1)] obtain o1 where o1: "o1 \<in> set opts" "evolved t o1"
    "\<forall>y \<in> set opts. shortName y = shortName t \<longrightarrow> y = o1"
    by blast
  note f = evolved_fields [OF o1(2)]
  from shortOptions_effect [OF d assms(3,4)] show ?thesis
  proof (elim disjE conjE bexE exE)
    assume n: "x \<notin> shortName ` set opts" "opts' = opts"
    with o1(1) f(2) have "x \<noteq> shortName t" by (metis image_eqI)
    with n show ?thesis by simp
  next
    fix opt r0
    assume a: "opt \<in> set opts" "shortName opt = x"
      "applyOption opt argv env = (r0, opt\<lparr>isSet := True\<rparr>, env')" "0 \<le> r0"
      "opts' = map (\<lambda>y. if shortName y = x then opt\<lparr>isSet := True\<rparr> else y) opts"
    show ?thesis
    proof (cases "x = shortName t")
      case True
      with a o1(3) have e: "opt = o1" by simp
      with applyOption_success(2) [OF a(3,4)] f(1) assms(2) have ns: "\<not> isSet o1" by simp
      have "\<not> was_set opts t" using o1(3) ns by (auto simp: was_set_def list_ex_iff)
      moreover have "opt\<lparr>isSet := True\<rparr> \<in> set opts'"
        unfolding a(5) using a(1,2) by (auto simp: image_iff)
      then have "was_set opts' t" using a(2) True
        by (auto simp: was_set_def list_ex_iff intro!: bexI [of _ "opt\<lparr>isSet := True\<rparr>"])
      ultimately show ?thesis using True by simp
    next
      case False
      with a(2,5) have "was_set opts' t = was_set opts t"
        by (auto simp: was_set_def list_ex_iff)
      with False show ?thesis by simp
    qed
  qed
qed

lemma longOptions_sets:
  assumes "declared opts t" and "type t \<noteq> FlagCount"
    and "longOptions name argv opts env = (Some r, opts', env')" and "0 \<le> r"
  shows "(of_bool (was_set opts' t) :: int)
           = of_bool (was_set opts t) + (if name = longName t then 1 else 0)"
proof -
  from assms(1) have d: "distinct (map longName opts)" by (simp add: declared_def)
  from declared_target [OF assms(1)] obtain o1 where o1: "o1 \<in> set opts" "evolved t o1"
    "\<forall>y \<in> set opts. shortName y = shortName t \<longrightarrow> y = o1"
    "\<forall>y \<in> set opts. longName y = longName t \<longrightarrow> y = o1"
    by blast
  note f = evolved_fields [OF o1(2)]
  from longOptions_effect [OF d assms(3,4)] obtain opt where
    a: "opt \<in> set opts" "longName opt = name"
       "applyOption opt argv env = (r, opt\<lparr>isSet := True\<rparr>, env')"
       "opts' = map (\<lambda>y. if longName y = name then opt\<lparr>isSet := True\<rparr> else y) opts"
    by blast
  show ?thesis
  proof (cases "name = longName t")
    case True
    with a o1(4) have e: "opt = o1" by simp
    with applyOption_success(2) [OF a(3) assms(4)] f(1) assms(2) have ns: "\<not> isSet o1" by simp
    have "\<not> was_set opts t" using o1(3) ns by (auto simp: was_set_def list_ex_iff)
    moreover have "opt\<lparr>isSet := True\<rparr> \<in> set opts'"
      unfolding a(4) using a(1,2) by (auto simp: image_iff)
    then have "was_set opts' t" using e f(2)
      by (auto simp: was_set_def list_ex_iff intro!: bexI [of _ "opt\<lparr>isSet := True\<rparr>"])
    ultimately show ?thesis using True by simp
  next
    case False
    have ne: "shortName opt \<noteq> shortName t"
    proof
      assume "shortName opt = shortName t"
      with o1(3) a(1) have "opt = o1" by blast
      with f(3) a(2) False show False by simp
    qed
    have "\<And>y. y \<in> set opts \<Longrightarrow> longName y = name \<Longrightarrow> y = opt"
      using distinct_map_eq [OF d _ a(1)] a(2) by simp
    with ne a(4) have "was_set opts' t = was_set opts t"
      by (auto simp: was_set_def list_ex_iff)
    with False show ?thesis by simp
  qed
qed

text \<open>
  C4. For a declared option whose kind is not \<^verbatim>\<open>FlagCount\<close>, short names and long
  names being pairwise different: when the tokens the scan dispatches on name the
  option twice or more, by its short name (twice in one cluster included), by its
  long name, or a mix, \<^verbatim>\<open>parse\<close> returns \<^verbatim>\<open>false\<close>.
\<close>

theorem second_application_fails:
  assumes "distinct (map shortName (options p))" and "distinct (map longName (options p))"
    and "opt \<in> set (options p)" and "type opt \<noteq> FlagCount"
    and "2 \<le> invocations (options p) opt (drop 1 argv)"
  shows "fst (parse argv p env) = False"
proof (rule ccontr)
  assume "fst (parse argv p env) \<noteq> False"
  then obtain p' env' where ok: "parse argv p env = (True, p', env')"
    by (cases "parse argv p env") auto
  let ?q = "p\<lparr>executableName := (case argv of [] \<Rightarrow> None | a # _ \<Rightarrow> Some a)\<rparr>"
  have i: "declared (options ?q) opt"
    using assms(1,2,3) by (auto simp: declared_def list_ex_iff intro: bexI [of _ opt])
  from parseLoop_potential [of "\<lambda>opts. declared opts opt" "\<lambda>opts env. of_bool (was_set opts opt)" opt,
      OF shortOptions_sets [OF _ assms(4)] longOptions_sets [OF _ assms(4)] declared_evolved i
         parse_ok [OF ok]]
  have "(of_bool (was_set (options p') opt) :: int)
          = of_bool (was_set (options p) opt) + int (invocations (options p) opt (drop 1 argv))"
    by simp
  moreover have "(of_bool (was_set (options p') opt) :: int) \<le> 1" by simp
  moreover have "(0 :: int) \<le> of_bool (was_set (options p) opt)" by simp
  ultimately have "int (invocations (options p) opt (drop 1 argv)) \<le> 1" by linarith
  with assms(5) show False by simp
qed

theorem second_application_fails_witness:
  "invocations (options test_parser) (OptionString CHR ''S'' ''string'' ''some string'' False 0)
     (drop 1 [''testExe'', ''-S'', ''a'', ''--string'', ''b'']) = 2
   \<and> fst (parse [''testExe'', ''-S'', ''a'', ''--string'', ''b''] test_parser example_env) = False"
proof -
  let ?S = "OptionString CHR ''S'' ''string'' ''some string'' False 0"
  let ?argv = "[''testExe'', ''-S'', ''a'', ''--string'', ''b'']"
  have d1: "distinct (map shortName (options test_parser))"
    and d2: "distinct (map longName (options test_parser))"
    and m: "?S \<in> set (options test_parser)"
    and t: "type ?S \<noteq> FlagCount"
    by (simp_all add: test_parser_def example_defs)
  have n: "invocations (options test_parser) ?S (drop 1 ?argv) = 2"
    by (simp add: test_parser_def example_defs token_defs)
  then have "2 \<le> invocations (options test_parser) ?S (drop 1 ?argv)" by simp
  from second_application_fails [OF d1 d2 m t this] n show ?thesis by simp
qed

section \<open>Failures that leave the option set\<close>

lemma applyOption_log:
  assumes "applyOption opt argv env = (r, opt', env')"
  shows "(0 \<le> r \<and> errlog env' = errlog env)
       \<or> (r = - 1 \<and> opt' = opt
            \<and> env' = CLI_LOG_ERROR (ErrDuplicate (shortName opt) (longName opt)) env)
       \<or> (r = - 1 \<and> opt' = opt\<lparr>isSet := True\<rparr>
            \<and> (\<exists>e. env' = CLI_LOG_ERROR e env \<and> parameter_error e \<and> names_option e opt))"
  using assms
  by (cases "type opt"; simp add: applyOption_def requiresParameter_def Let_def CLI_LOG_ERROR_def
        split: if_splits; auto)+

lemma errlog_log [simp]: "errlog (CLI_LOG_ERROR e env) = errlog env @ [e]"
  by (simp add: CLI_LOG_ERROR_def)

lemma applyOption_failure:
  assumes "applyOption opt argv env = (r, opt', env')"
  shows "(0 \<le> r \<and> errlog env' = errlog env)
       \<or> (r = - 1 \<and> (\<exists>e. errlog env' = errlog env @ [e]
                        \<and> (parameter_error e \<longrightarrow> isSet opt' \<and> names_option e opt')))"
proof -
  have n: "names_option e (opt\<lparr>isSet := True\<rparr>) = names_option e opt" for e
    by (cases e) simp_all
  from applyOption_log [OF assms] show ?thesis
  proof (elim disjE conjE exE)
    assume "0 \<le> r" "errlog env' = errlog env"
    then show ?thesis by simp
  next
    assume "r = - 1" "env' = CLI_LOG_ERROR (ErrDuplicate (shortName opt) (longName opt)) env"
    then have "r = - 1 \<and> errlog env' = errlog env @ [ErrDuplicate (shortName opt) (longName opt)]
        \<and> \<not> parameter_error (ErrDuplicate (shortName opt) (longName opt))" by simp
    then show ?thesis by blast
  next
    fix e
    assume "r = - 1" "opt' = opt\<lparr>isSet := True\<rparr>" "env' = CLI_LOG_ERROR e env"
      "names_option e opt"
    then have "r = - 1 \<and> errlog env' = errlog env @ [e] \<and> isSet opt' \<and> names_option e opt'"
      by (simp add: n)
    then show ?thesis by blast
  qed
qed

lemma offender_Cons:
  "offender_set e (opt # opts) \<longleftrightarrow> (isSet opt \<and> names_option e opt) \<or> offender_set e opts"
  by (simp add: offender_set_def)

lemma shortOptions_failure:
  "shortOptions c mid argv opts h env = (r, h', opts', env') \<Longrightarrow>
     (r \<noteq> Some (- 1) \<and> errlog env' = errlog env)
   \<or> (r = Some (- 1) \<and> (\<exists>e. errlog env' = errlog env @ [e]
                             \<and> (parameter_error e \<longrightarrow> offender_set e opts')))"
proof (induction opts arbitrary: h env opts')
  case Nil
  then show ?case by simp
next
  case (Cons opt opts)
  from Cons.prems show ?case
  proof (cases rule: shortOptions_Cons_cases)
    case (skip opts1)
    with Cons.IH [OF skip(2)] show ?thesis by (auto simp: offender_Cons)
  next
    case middle
    then have "r = Some (- 1) \<and> errlog env' = errlog env @ [ErrMidCluster c]
        \<and> \<not> parameter_error (ErrMidCluster c)" by simp
    then show ?thesis by blast
  next
    case (stop r0 opt0)
    with applyOption_failure [OF stop(3)] show ?thesis by (auto simp: offender_Cons)
  next
    case (continue opt0 env0 opts1)
    from applyOption_failure [OF continue(3)] have "errlog env0 = errlog env" by simp
    with Cons.IH [OF continue(4)] continue(5) show ?thesis by (auto simp: offender_Cons)
  qed
qed

lemma shortCluster_failure:
  "shortCluster cs argv opts env = (r, opts', env') \<Longrightarrow>
     (r \<noteq> - 1 \<and> errlog env' = errlog env)
   \<or> (r = - 1 \<and> (\<exists>e. errlog env' = errlog env @ [e]
                      \<and> (parameter_error e \<longrightarrow> offender_set e opts')))"
proof (induction cs arbitrary: opts env)
  case Nil
  then show ?case by simp
next
  case (Cons c cs)
  from Cons.prems show ?case
  proof (cases rule: shortCluster_Cons_cases)
    case (return h)
    from shortOptions_failure [OF this] show ?thesis by simp
  next
    case (unknown env1)
    from shortOptions_failure [OF unknown(1)] unknown(2,3)
    have "r = - 1 \<and> errlog env' = errlog env @ [ErrUnknownShort c]
        \<and> \<not> parameter_error (ErrUnknownShort c)" by simp
    then show ?thesis by blast
  next
    case (continue opts1 env1)
    from shortOptions_failure [OF continue(1)] have "errlog env1 = errlog env" by simp
    with Cons.IH [OF continue(2)] show ?thesis by simp
  qed
qed

lemma longOptions_failure:
  "longOptions name argv opts env = (r, opts', env') \<Longrightarrow>
     (r = None \<and> errlog env' = errlog env)
   \<or> (\<exists>r0. r = Some r0 \<and> 0 \<le> r0 \<and> errlog env' = errlog env)
   \<or> (r = Some (- 1) \<and> (\<exists>e. errlog env' = errlog env @ [e]
                             \<and> (parameter_error e \<longrightarrow> offender_set e opts')))"
proof (induction opts arbitrary: opts')
  case Nil
  then show ?case by simp
next
  case (Cons opt opts)
  show ?case
  proof (cases "name = longName opt")
    case True
    obtain r0 opt0 env0 where a: "applyOption opt argv env = (r0, opt0, env0)"
      by (cases "applyOption opt argv env") auto
    with True Cons.prems have "r = Some r0" "opts' = opt0 # opts" "env0 = env'" by auto
    with applyOption_failure [OF a] show ?thesis by (auto simp: offender_Cons)
  next
    case False
    obtain r1 opts1 env1 where s: "longOptions name argv opts env = (r1, opts1, env1)"
      by (cases "longOptions name argv opts env") auto
    with False Cons.prems have "r1 = r" "opts' = opt # opts1" "env1 = env'" by auto
    with s Cons.IH [of opts1] show ?thesis by (auto simp: offender_Cons)
  qed
qed

lemma handleOption_failure:
  assumes "handleOption (tok # rest) p env = (r, p', env')"
  shows "(0 \<le> r \<and> errlog env' = errlog env)
       \<or> (r = - 1 \<and> (\<exists>e. errlog env' = errlog env @ [e]
                        \<and> (parameter_error e \<longrightarrow> offender_set e (options p'))))"
proof -
  consider (pos) "positional tok" | (cl) "is_cluster tok" | (lo) "is_long tok"
    using token_classes by blast
  then show ?thesis
  proof cases
    case pos
    with assms show ?thesis by (auto simp: handleOption_positional)
  next
    case cl
    obtain r1 opts1 env1 where
      s: "shortCluster (drop 1 tok) (tok # rest) (options p) env = (r1, opts1, env1)"
      by (cases "shortCluster (drop 1 tok) (tok # rest) (options p) env") auto
    with cl assms have eq: "r1 = r" "p' = p\<lparr>options := opts1\<rparr>" "env1 = env'"
      by (simp_all add: handleOption_cluster)
    from shortCluster_failure [OF s] shortCluster_result [OF s] eq show ?thesis by auto
  next
    case lo
    obtain r1 opts1 env1 where
      s: "longOptions (drop 2 tok) (tok # rest) (options p) env = (r1, opts1, env1)"
      by (cases "longOptions (drop 2 tok) (tok # rest) (options p) env") auto
    show ?thesis
    proof (cases r1)
      case None
      with s lo assms have "r = - 1" "env' = CLI_LOG_ERROR (ErrUnknownOption tok) env1"
        by (simp_all add: handleOption_long)
      with longOptions_failure [OF s] None
      have "r = - 1 \<and> errlog env' = errlog env @ [ErrUnknownOption tok]
          \<and> \<not> parameter_error (ErrUnknownOption tok)" by simp
      then show ?thesis by blast
    next
      case (Some r0)
      with s lo assms have eq: "r0 = r" "p' = p\<lparr>options := opts1\<rparr>" "env1 = env'"
        by (simp_all add: handleOption_long)
      with longOptions_failure [OF s] Some show ?thesis by auto
    qed
  qed
qed

lemma parseLoop_failure:
  "parseLoop args p env = (ok, p', env') \<Longrightarrow>
     (ok \<and> errlog env' = errlog env)
   \<or> (\<not> ok \<and> (\<exists>e. errlog env' = errlog env @ [e]
                    \<and> (parameter_error e \<longrightarrow> offender_set e (options p'))))"
proof (induction "length args" arbitrary: args p env rule: less_induct)
  case less
  show ?case
  proof (cases args)
    case Nil
    with less.prems show ?thesis by simp
  next
    case (Cons a as)
    from less.prems [unfolded Cons] show ?thesis
    proof (cases rule: parseLoop_Cons_cases)
      case (fail r)
      with handleOption_failure [OF fail(1)] show ?thesis by auto
    next
      case (step r p1 env1)
      from handleOption_failure [OF step(1)] step(2) have "errlog env1 = errlog env" by auto
      moreover have "length (drop (nat r) as) < length args" using Cons by simp
      from less.hyps [OF this step(3)]
      have "(ok \<and> errlog env' = errlog env1)
          \<or> (\<not> ok \<and> (\<exists>e. errlog env' = errlog env1 @ [e]
                    \<and> (parameter_error e \<longrightarrow> offender_set e (options p'))))" .
      ultimately show ?thesis by simp
    qed
  qed
qed

lemma parse_failure:
  assumes "parse argv p env = (ok, p', env')"
  shows "(ok \<and> errlog env' = errlog env)
       \<or> (\<not> ok \<and> (\<exists>e. errlog env' = errlog env @ [e]
                      \<and> (parameter_error e \<longrightarrow> offender_set e (options p'))))"
proof -
  let ?q = "p\<lparr>executableName := (case argv of [] \<Rightarrow> None | a # _ \<Rightarrow> Some a)\<rparr>"
  obtain ok1 p1 env1 where s: "parseLoop (drop 1 argv) ?q env = (ok1, p1, env1)"
    by (cases "parseLoop (drop 1 argv) ?q env") auto
  show ?thesis
  proof (cases ok1)
    case False
    with s assms have "\<not> ok" "p1 = p'" "env1 = env'" by (simp_all add: parse_def)
    with parseLoop_failure [OF s] False show ?thesis by simp
  next
    case True
    with parseLoop_failure [OF s] have l: "errlog env1 = errlog env" by simp
    from True s assms have c: "checkRequired (options p1) env1 = (ok, env')"
      by (auto simp: parse_def split: prod.splits)
    show ?thesis
    proof (cases "find (\<lambda>opt. isRequired opt \<and> \<not> isSet opt) (options p1)")
      case None
      with c l show ?thesis by (simp add: checkRequired_find)
    next
      case (Some x)
      with c l have "\<not> ok \<and> errlog env' = errlog env @ [ErrRequired (shortName x) (longName x)]
          \<and> \<not> parameter_error (ErrRequired (shortName x) (longName x))"
        by (auto simp: checkRequired_find)
      then show ?thesis by blast
    qed
  qed
qed

text \<open>
  C9. When \<^verbatim>\<open>applyOption\<close> fails with a missing-parameter or an invalid-literal
  message, it returns -1 with the option's \<^verbatim>\<open>isSet\<close> set to \<^verbatim>\<open>true\<close> and with the
  caller's memory unchanged but for the message. When the message that \<^verbatim>\<open>parse\<close>
  logs is of that kind, \<^verbatim>\<open>parse\<close> has returned \<^verbatim>\<open>false\<close> and the option that the
  message names has \<^verbatim>\<open>isSet = true\<close> in the parser.
\<close>

theorem parameter_error_leaves_option_set:
  "(applyOption opt argv env = (r, opt', env') \<and> errlog env' = errlog env @ [e]
      \<and> parameter_error e
    \<longrightarrow> r = - 1 \<and> opt' = opt\<lparr>isSet := True\<rparr> \<and> names_option e opt
        \<and> env' = env\<lparr>errlog := errlog env @ [e]\<rparr>)
   \<and> (parse pargv p penv = (ok, p', penv') \<and> errlog penv' = errlog penv @ [e]
        \<and> parameter_error e
      \<longrightarrow> \<not> ok \<and> offender_set e (options p'))"
proof -
  have "r = - 1 \<and> opt' = opt\<lparr>isSet := True\<rparr> \<and> names_option e opt
        \<and> env' = env\<lparr>errlog := errlog env @ [e]\<rparr>"
    if a: "applyOption opt argv env = (r, opt', env')" and l: "errlog env' = errlog env @ [e]"
      and pe: "parameter_error e"
  proof -
    from applyOption_log [OF a] l pe show ?thesis
      by (elim disjE conjE exE) (auto simp: CLI_LOG_ERROR_def)
  qed
  moreover have "\<not> ok \<and> offender_set e (options p')"
    if a: "parse pargv p penv = (ok, p', penv')" and l: "errlog penv' = errlog penv @ [e]"
      and pe: "parameter_error e"
  proof -
    from parse_failure [OF a] l pe show ?thesis by auto
  qed
  ultimately show ?thesis by blast
qed

lemma example_missing_apply:
  "applyOption (OptionString CHR ''i'' ''input-file'' ''input file'' True 0) [''-i''] example_env
   = (- 1, (OptionString CHR ''i'' ''input-file'' ''input file'' True 0)\<lparr>isSet := True\<rparr>,
      CLI_LOG_ERROR (ErrMissingParameter CHR ''i'' ''input-file'') example_env)"
  by (simp add: example_defs run_defs)

lemma example_missing_run:
  "parse [''cli_example'', ''-i''] example_parser example_env
   = (False,
      example_parser
        \<lparr>options := [(OptionString CHR ''i'' ''input-file'' ''input file'' True 0)\<lparr>isSet := True\<rparr>,
                      OptionFlagCount CHR ''v'' ''verbose'' ''verbose logging'' 0],
         executableName := Some ''cli_example''\<rparr>,
      CLI_LOG_ERROR (ErrMissingParameter CHR ''i'' ''input-file'') example_env)"
  by (simp add: parse_def example_defs run_defs handleOption.simps)

theorem parameter_error_leaves_option_set_witness:
  "\<not> isSet (OptionString CHR ''i'' ''input-file'' ''input file'' True 0)
   \<and> fst (applyOption (OptionString CHR ''i'' ''input-file'' ''input file'' True 0) [''-i'']
            example_env) = - 1
   \<and> isSet (fst (snd (applyOption (OptionString CHR ''i'' ''input-file'' ''input file'' True 0)
                         [''-i''] example_env)))
   \<and> strs (snd (snd (applyOption (OptionString CHR ''i'' ''input-file'' ''input file'' True 0)
                        [''-i''] example_env))) = strs example_env
   \<and> \<not> fst (parse [''cli_example'', ''-i''] example_parser example_env)
   \<and> offender_set (ErrMissingParameter CHR ''i'' ''input-file'')
        (options (fst (snd (parse [''cli_example'', ''-i''] example_parser example_env))))"
proof -
  let ?e = "ErrMissingParameter CHR ''i'' ''input-file''"
  let ?I = "OptionString CHR ''i'' ''input-file'' ''input file'' True 0"
  let ?p' = "example_parser
        \<lparr>options := [?I\<lparr>isSet := True\<rparr>,
                      OptionFlagCount CHR ''v'' ''verbose'' ''verbose logging'' 0],
         executableName := Some ''cli_example''\<rparr>"
  have l: "errlog (CLI_LOG_ERROR ?e example_env) = errlog example_env @ [?e]" by simp
  have pe: "parameter_error ?e" by simp
  from parameter_error_leaves_option_set
         [where opt = ?I and argv = "[''-i'']" and env = example_env and e = ?e
            and r = "- 1" and opt' = "?I\<lparr>isSet := True\<rparr>"
            and env' = "CLI_LOG_ERROR ?e example_env"
            and pargv = "[''cli_example'', ''-i'']"
            and p = example_parser and penv = example_env and ok = False and p' = ?p'
            and penv' = "CLI_LOG_ERROR ?e example_env"]
       example_missing_apply example_missing_run l pe
  have "?I\<lparr>isSet := True\<rparr> = ?I\<lparr>isSet := True\<rparr>
        \<and> CLI_LOG_ERROR ?e example_env = example_env\<lparr>errlog := errlog example_env @ [?e]\<rparr>
        \<and> offender_set ?e (options ?p')"
    by blast
  then show ?thesis
    unfolding example_missing_apply example_missing_run
    by (simp add: OptionString_def)
qed

section \<open>The model on the test cases of the repository\<close>

text \<open>
  \<^verbatim>\<open>atoi\<close> and \<^verbatim>\<open>isNumeric\<close> on the literals of the specification, and the test case
  "Option types" of \<^verbatim>\<open>cli_test.cpp\<close>, whose six variables are the addresses 0 and 1 of
  the typed heaps: the model gives the values the test requires.
\<close>

lemma atoi_examples:
  "atoi ''23'' = 23" "atoi ''-5'' = - 5" "atoi [] = 0" "atoi ''+'' = 0" "atoi '' 42abc'' = 42"
  by (simp_all add: atoi_def isspace_def isdigit_def)

lemma isNumeric_examples:
  "isNumeric ''0.5'' True" "isNumeric ''23'' False" "\<not> isNumeric ''3.14abc'' True"
  "\<not> isNumeric ''5e'' True" "\<not> isNumeric ''1.2.3'' True" "isNumeric ''.'' True"
  by (simp_all add: isNumeric_def isdigit_def)

lemma test_option_types:
  "parse [''testExe'', ''-S'', ''fileName'', ''--output-file'', ''output.txt'', ''-F'', ''0.5'',
          ''-VVV'', ''-D'', ''-I'', ''23'', ''File1'', ''File2'']
     \<lparr>options = [OptionInt CHR ''I'' ''int'' ''some int'' False 0,
                 OptionFloat CHR ''F'' ''float'' ''some float'' False 0,
                 OptionString CHR ''S'' ''string'' ''some string'' False 0,
                 OptionPath CHR ''f'' ''output-file'' ''some path'' False 1,
                 OptionFlag CHR ''D'' ''debug'' ''some flag'' 0,
                 OptionFlagCount CHR ''V'' ''verbose'' ''verbosity'' 1],
      remaining = [], executableName = None\<rparr> example_env
   = (True,
      \<lparr>options = [(OptionInt CHR ''I'' ''int'' ''some int'' False 0)\<lparr>isSet := True\<rparr>,
                  (OptionFloat CHR ''F'' ''float'' ''some float'' False 0)\<lparr>isSet := True\<rparr>,
                  (OptionString CHR ''S'' ''string'' ''some string'' False 0)\<lparr>isSet := True\<rparr>,
                  (OptionPath CHR ''f'' ''output-file'' ''some path'' False 1)\<lparr>isSet := True\<rparr>,
                  (OptionFlag CHR ''D'' ''debug'' ''some flag'' 0)\<lparr>isSet := True\<rparr>,
                  (OptionFlagCount CHR ''V'' ''verbose'' ''verbosity'' 1)\<lparr>isSet := True\<rparr>],
       remaining = [''File1'', ''File2''], executableName = Some ''testExe''\<rparr>,
      example_env
        \<lparr>bools := (bools example_env)(0 := True),
         ints := (ints example_env)(1 := 3, 0 := 23),
         floats := (floats example_env)(0 := Atof ''0.5''),
         strs := (strs example_env)(0 := Some ''fileName'', 1 := Some ''output.txt'')\<rparr>)"
  by (simp add: parse_def example_defs run_defs handleOption.simps isNumeric_examples
        atoi_examples fun_upd_twist)

end
